theory Spec2Isabelle
  imports Main "HOL-Library.Multiset" "HOL-Library.Sublist"
begin

text \<open>
  A model of the Cloudflare Workers preview cleaner: the client of the remote API
  (\<^verbatim>\<open>src/lib/cloudflare-api.ts\<close>: \<^verbatim>\<open>sanitize\<close>, \<^verbatim>\<open>request\<close>, \<^verbatim>\<open>listDeployments\<close>,
  \<^verbatim>\<open>deleteDeployment\<close>, \<^verbatim>\<open>formatError\<close>, \<^verbatim>\<open>tryDelete\<close>, \<^verbatim>\<open>deleteDeployments\<close>), the
  selection of what to delete (\<^verbatim>\<open>src/commands/delete.ts\<close>: \<^verbatim>\<open>deleteCommand\<close>, and
  \<^verbatim>\<open>selectDeploymentsToDelete\<close>, \<^verbatim>\<open>confirmDeletion\<close>, \<^verbatim>\<open>confirmDeleteAll\<close> of the
  prompts), and the properties of them that the specification states.

  The remote side and the user are parameters: \<^verbatim>\<open>fetch\<close> is a function of the state of
  the world, the prompts are functions. Time is not modelled: a pause is an event of the
  trace, with its length. Logging and the spinner are left out.
\<close>

section \<open>Strings and numbers of the host language\<close>

text \<open>
  Messages and header values are modelled as \<open>string\<close>: a sequence of code units
  below 256 (header values are byte strings; for messages this is the Latin-1 range).
  On these code units the regular-expression class \<^verbatim>\<open>\s\<close> and the white space that
  \<^verbatim>\<open>parseInt\<close> skips are the same seven characters.
\<close>

definition is_space :: "char \<Rightarrow> bool" where
  "is_space c \<longleftrightarrow>
     c \<in> set [CHR 0x09, CHR 0x0A, CHR 0x0B, CHR 0x0C, CHR 0x0D, CHR '' '', CHR 0xA0]"

text \<open>
  The \<^verbatim>\<open>i\<close> flag compares canonicalised code units: a lower-case ASCII letter becomes
  its upper-case letter; every other code unit below 256 is compared as it is (a code
  unit of 128 or more never canonicalises to an ASCII letter).
\<close>

definition canonicalize :: "char \<Rightarrow> char" where
  "canonicalize c =
     (case map_of (zip ''abcdefghijklmnopqrstuvwxyz'' ''ABCDEFGHIJKLMNOPQRSTUVWXYZ'') c of
        Some u \<Rightarrow> u
      | None \<Rightarrow> c)"

text \<open>Matching a literal pattern at the head of a subject; the result is the unread rest.\<close>

fun match_literal :: "string \<Rightarrow> string \<Rightarrow> string option" where
  "match_literal [] s = Some s"
| "match_literal (p # ps) [] = None"
| "match_literal (p # ps) (c # cs) =
     (if canonicalize c = canonicalize p then match_literal ps cs else None)"

text \<open>
  One attempt of \<^verbatim>\<open>/Bearer\s+\S+/i\<close> anchored at the head of the subject. \<^verbatim>\<open>\s+\<close> is
  greedy and takes the whole run of white space; giving characters back can never help,
  because \<^verbatim>\<open>\S+\<close> would then start on white space. So the attempt succeeds exactly when
  the run is not empty and something follows it, and the match ends where the following
  run of non-space characters ends. The result is the subject after the match.
\<close>

definition match_bearer :: "string \<Rightarrow> string option" where
  "match_bearer s =
     (case match_literal ''Bearer'' s of
        None \<Rightarrow> None
      | Some t \<Rightarrow>
          (if takeWhile is_space t = [] \<or> dropWhile is_space t = [] then None
           else Some (dropWhile (\<lambda>c. \<not> is_space c) (dropWhile is_space t))))"

text \<open>
  What must follow the literal for the pattern to match: a run of white space that is
  not empty, and something after it.
\<close>

definition starts_token :: "string \<Rightarrow> bool" where
  "starts_token t \<longleftrightarrow> takeWhile is_space t \<noteq> [] \<and> dropWhile is_space t \<noteq> []"

text \<open>
  \<^verbatim>\<open>message.replace(/Bearer\s+\S+/gi, 'Bearer [REDACTED]')\<close>: the subject is scanned from
  the left; where the pattern matches, the match is replaced and the scan goes on after
  it; elsewhere the character is kept and the scan moves by one.
\<close>

function sanitize :: "string \<Rightarrow> string" where
  "sanitize [] = []"
| "sanitize (c # cs) =
     (case match_bearer (c # cs) of
        Some rest \<Rightarrow> ''Bearer [REDACTED]'' @ sanitize rest
      | None \<Rightarrow> c # sanitize cs)"
  by pat_completeness auto
termination
proof (relation "measure length", goal_cases)
  case 1
  show ?case by simp
next
  case (2 c cs)
  show ?case by simp
next
  case (3 c cs rest)
  have len: "length s = length ps + length t" if "match_literal ps s = Some t" for ps s t
    using that by (induction ps s rule: match_literal.induct) (auto split: if_splits)
  from 3 obtain t where t: "match_literal ''Bearer'' (c # cs) = Some t"
    and r: "rest = dropWhile (\<lambda>c. \<not> is_space c) (dropWhile is_space t)"
    by (auto simp: match_bearer_def split: option.splits if_splits)
  have "length rest \<le> length t"
    unfolding r by (meson length_dropWhile_le order_trans)
  moreover have "length (c # cs) = 6 + length t"
    using len [OF t] by simp
  ultimately show ?case by simp
qed

text \<open>
  A message is redacted when, at every position where the pattern matches, the matched
  text is the marker itself.
\<close>

fun redacted :: "string \<Rightarrow> bool" where
  "redacted [] = True"
| "redacted (c # cs) =
     ((case match_bearer (c # cs) of
         None \<Rightarrow> True
       | Some rest \<Rightarrow> c # cs = ''Bearer [REDACTED]'' @ rest) \<and>
      redacted cs)"


text \<open>
  A number as \<^verbatim>\<open>parseInt\<close> returns it here: not-a-number, or a finite Number whose
  value is an integer. A Number is a double: it holds every integer up to \<open>2^53\<close>
  and, above, only the integers that fit in 53 binary digits followed by zeros.
\<close>

datatype jsnum = NaN | Fin int

text \<open>
  The Number for an integer: the integer itself when it has at most 53 binary digits,
  otherwise the nearest integer with 53 significant binary digits, and of two equally
  near ones the one whose last significant digit is even. This is the conversion of the
  language for integers below \<open>2^1024\<close>, where the Number is finite.
\<close>

fun binary_digits :: "nat \<Rightarrow> nat" where
  "binary_digits n = (if n = 0 then 0 else Suc (binary_digits (n div 2)))"

definition to_number :: "nat \<Rightarrow> nat" where
  "to_number m =
     (let e = binary_digits m - 53; q = m div 2 ^ e; r = m mod 2 ^ e
      in if 2 * r < 2 ^ e \<or> (2 * r = 2 ^ e \<and> even q) then q * 2 ^ e
         else (q + 1) * 2 ^ e)"

definition is_digit :: "char \<Rightarrow> bool" where
  "is_digit c \<longleftrightarrow> c \<in> set ''0123456789''"

definition digit_val :: "char \<Rightarrow> nat" where
  "digit_val c =
     (case map_of (zip ''0123456789'' [0, 1, 2, 3, 4, 5, 6, 7, 8, 9]) c of
        Some d \<Rightarrow> d
      | None \<Rightarrow> 0)"

definition digits_val :: "string \<Rightarrow> nat" where
  "digits_val ds = foldl (\<lambda>a c. 10 * a + digit_val c) 0 ds"

text \<open>
  The value of the \<^verbatim>\<open>Retry-After\<close> header, the one string that the client parses as
  a number: a string of at most 20 characters. Longer values are left out of the model:
  for a numeral of more than 20 significant digits the language leaves the result of
  \<^verbatim>\<open>parseInt\<close> to the implementation, and a numeral of more than 308 digits gives
  \<^verbatim>\<open>Infinity\<close>.
\<close>

typedef header_value = "{h :: string. length h \<le> 20}"
  by (rule exI [of _ "[]"]) simp

text \<open>
  \<^verbatim>\<open>parseInt(s, 10)\<close> on a header value: leading white space is skipped, one sign is
  read, then the longest run of decimal digits; no digit at all gives not-a-number, and
  otherwise the result is the Number for the integer that the digits denote.
\<close>

definition parseInt :: "header_value \<Rightarrow> jsnum" where
  "parseInt s =
     (let t = dropWhile is_space (Rep_header_value s);
          negative = (t \<noteq> [] \<and> hd t = CHR ''-'');
          u = (if t \<noteq> [] \<and> (hd t = CHR ''-'' \<or> hd t = CHR ''+'') then tl t else t);
          ds = takeWhile is_digit u
      in if ds = [] then NaN
         else Fin ((if negative then - 1 else 1) * int (to_number (digits_val ds))))"


section \<open>Data model of the client\<close>

record CloudflareConfig =
  accountId :: string
  apiToken :: string

record DeploymentVersion =
  version_id :: string
  percentage :: int

record Deployment =
  deployment_id :: string
  created_on :: string
  author_email :: string
  source :: string
  strategy :: string
  versions :: "DeploymentVersion list"

record api_error_entry =
  code :: int
  message :: string

text \<open>
  The response envelope. \<open>resp_errors\<close> is optional because the code reads it with
  \<^verbatim>\<open>?.\<close>; the type parameter is the type of \<open>result\<close>.
\<close>

record 'r CloudflareResponse =
  resp_success :: bool
  resp_result :: 'r
  resp_errors :: "api_error_entry list option"
  resp_messages :: "string list"

record DeploymentsResult =
  deployments :: "Deployment list"

text \<open>
  What \<^verbatim>\<open>response.json()\<close> gives: the call rejects (the body is not JSON), or it
  resolves to \<^verbatim>\<open>null\<close>, to another value that is no object (a number, a string, a
  boolean; an array reads the same way: none of the properties that \<^verbatim>\<open>request\<close> reads
  is defined on it), or to an object. An object is read through the cast of the code, as
  an envelope: \<open>resp_success\<close> is the truthiness of its \<^verbatim>\<open>success\<close>, an absent
  \<^verbatim>\<open>errors\<close> is \<open>None\<close>, an absent or empty first message is the empty string.
\<close>

datatype 'r body = Unparsable | Null | Primitive | Envelope "'r CloudflareResponse"

text \<open>
  What \<^verbatim>\<open>fetch\<close> resolves to, as far as \<^verbatim>\<open>request\<close> reads it: the status, the status
  text, the \<^verbatim>\<open>Retry-After\<close> header (\<open>None\<close> when absent) and the body as
  \<^verbatim>\<open>response.json()\<close> gives it.
\<close>

record 'r Response =
  status :: nat
  statusText :: string
  retry_after :: "header_value option"
  json :: "'r body"

text \<open>
  Thrown values. \<open>RateLimitError\<close> carries \<^verbatim>\<open>retryAfter\<close>; its message and status
  code are fixed by its constructor. \<open>CloudflareAPIError\<close> carries the message, the
  status code and the reported errors. \<open>OtherError\<close> is any other \<^verbatim>\<open>Error\<close> (one that
  \<^verbatim>\<open>fetch\<close> rejects with, or a \<^verbatim>\<open>TypeError\<close> of the language) and \<open>NonError\<close> a
  thrown value that is no \<^verbatim>\<open>Error\<close>.
\<close>

datatype thrown =
    RateLimitError "jsnum option"
  | CloudflareAPIError string "nat option" "api_error_entry list option"
  | OtherError string
  | NonError

definition rate_limit_message :: string where
  "rate_limit_message = ''Rate limit exceeded. Please wait before retrying.''"

definition permission_denied_message :: string where
  "permission_denied_message =
     ''Permission denied. Please check your API token has the required permissions (Workers Scripts: Read and Edit).''"

definition not_found_message :: string where
  "not_found_message = ''Resource not found. Please check the script name and account ID.''"

text \<open>
  The message of the \<^verbatim>\<open>TypeError\<close> that reading \<^verbatim>\<open>data.success\<close> throws when
  \<^verbatim>\<open>data\<close> is \<^verbatim>\<open>null\<close> (the wording is the one of the runtime the tool runs on).
\<close>

definition null_body_message :: string where
  "null_body_message = ''Cannot read properties of null (reading 'success')''"


fun statusCode :: "thrown \<Rightarrow> nat option" where
  "statusCode (RateLimitError ra) = Some 429"
| "statusCode (CloudflareAPIError m sc es) = sc"
| "statusCode (OtherError m) = None"
| "statusCode NonError = None"

fun is_RateLimitError :: "thrown \<Rightarrow> bool" where
  "is_RateLimitError (RateLimitError ra) = True"
| "is_RateLimitError e = False"



record Request =
  url :: string
  http_method :: string
  authorization :: string
  content_type :: string

text \<open>
  The remote side: \<^verbatim>\<open>fetch\<close> takes the state of the world and a request, and either
  rejects or resolves to a response, in a new state of the world.
\<close>

type_synonym ('w, 'r) fetch = "'w \<Rightarrow> Request \<Rightarrow> (thrown + 'r Response) \<times> 'w"

text \<open>
  What a run can be observed to do: a delete request for an identifier with its outcome
  (\<open>None\<close> when the call returned, the thrown value otherwise), a pause in
  milliseconds, and a call of the progress callback with its three arguments.
\<close>

datatype event =
    Attempt string "thrown option"
  | Delay int
  | Progress nat nat string

record 'w st =
  world :: 'w
  trace :: "event list"

section \<open>The remote resource client\<close>

definition baseUrl :: string where
  "baseUrl = ''https://api.cloudflare.com/client/v4''"

definition requestDelay :: int where
  "requestDelay = 200"

definition first_error_message :: "'r CloudflareResponse \<Rightarrow> string" where
  "first_error_message data =
     (case resp_errors data of
        Some (e # es) \<Rightarrow> if message e = [] then ''Unknown API error'' else message e
      | _ \<Rightarrow> ''Unknown API error'')"

text \<open>
  The part of \<^verbatim>\<open>request\<close> that follows the awaited \<^verbatim>\<open>fetch\<close>. Only the call of
  \<^verbatim>\<open>response.json()\<close> is under the \<^verbatim>\<open>try\<close>: when it resolves to \<^verbatim>\<open>null\<close>, reading
  \<^verbatim>\<open>data.success\<close> throws a \<^verbatim>\<open>TypeError\<close>; on any other value that is no object
  \<^verbatim>\<open>data.success\<close> and \<^verbatim>\<open>data.errors\<close> are undefined.
\<close>

definition handle_response :: "'r Response \<Rightarrow> thrown + 'r" where
  "handle_response response =
     (if status response = 429 then
        Inl (RateLimitError
               (case retry_after response of
                  None \<Rightarrow> None
                | Some h \<Rightarrow>
                    if Rep_header_value h = [] then None
                    else Some (parseInt h)))
      else if status response = 403 then
        Inl (CloudflareAPIError permission_denied_message (Some 403) None)
      else if status response = 404 then
        Inl (CloudflareAPIError not_found_message (Some 404) None)
      else
        (case json response of
           Unparsable \<Rightarrow>
             Inl (CloudflareAPIError
                    (sanitize (''Failed to parse API response: '' @ statusText response))
                    (Some (status response)) None)
         | Null \<Rightarrow> Inl (OtherError null_body_message)
         | Primitive \<Rightarrow>
             Inl (CloudflareAPIError (sanitize ''Unknown API error'')
                    (Some (status response)) None)
         | Envelope data \<Rightarrow>
             if \<not> resp_success data then
               Inl (CloudflareAPIError (sanitize (first_error_message data))
                      (Some (status response)) (resp_errors data))
             else Inr (resp_result data)))"

definition request ::
  "CloudflareConfig \<Rightarrow> ('w, 'r) fetch \<Rightarrow> string \<Rightarrow> string \<Rightarrow> 'w st \<Rightarrow> (thrown + 'r) \<times> 'w st"
where
  "request config fetch endpoint meth s =
     (case fetch (world s)
             \<lparr>url = baseUrl @ endpoint, http_method = meth,
              authorization = ''Bearer '' @ apiToken config,
              content_type = ''application/json''\<rparr> of
        (Inl e, w) \<Rightarrow> (Inl e, s\<lparr>world := w\<rparr>)
      | (Inr response, w) \<Rightarrow> (handle_response response, s\<lparr>world := w\<rparr>))"

definition listDeployments ::
  "CloudflareConfig \<Rightarrow> ('w, DeploymentsResult) fetch \<Rightarrow> string \<Rightarrow> 'w st
     \<Rightarrow> (thrown + Deployment list) \<times> 'w st"
where
  "listDeployments config fetch scriptName s =
     (case request config fetch
             (''/accounts/'' @ accountId config @ ''/workers/scripts/'' @ scriptName
                @ ''/deployments'') ''GET'' s of
        (Inl e, s') \<Rightarrow> (Inl e, s')
      | (Inr result, s') \<Rightarrow> (Inr (deployments result), s'))"

text \<open>
  \<^verbatim>\<open>deleteDeployment\<close> returns nothing or throws: the outcome is \<open>None\<close> or the thrown
  value. Each call is one request, recorded in the trace with its outcome.
\<close>

definition deleteDeployment ::
  "CloudflareConfig \<Rightarrow> ('w, 'r) fetch \<Rightarrow> string \<Rightarrow> string \<Rightarrow> 'w st \<Rightarrow> thrown option \<times> 'w st"
where
  "deleteDeployment config fetch scriptName deploymentId s =
     (case request config fetch
             (''/accounts/'' @ accountId config @ ''/workers/scripts/'' @ scriptName
                @ ''/deployments/'' @ deploymentId) ''DELETE'' s of
        (r, s') \<Rightarrow>
          (let outcome = (case r of Inl e \<Rightarrow> Some e | Inr x \<Rightarrow> None)
           in (outcome, s'\<lparr>trace := trace s' @ [Attempt deploymentId outcome]\<rparr>)))"

fun formatError :: "thrown \<Rightarrow> string" where
  "formatError NonError = ''Unknown error''"
| "formatError (RateLimitError ra) = sanitize rate_limit_message"
| "formatError (CloudflareAPIError m sc es) = sanitize m"
| "formatError (OtherError m) = sanitize m"

datatype try_result = TrySuccess | TryFailure string bool

definition tryDelete ::
  "CloudflareConfig \<Rightarrow> ('w, 'r) fetch \<Rightarrow> string \<Rightarrow> string \<Rightarrow> 'w st \<Rightarrow> try_result \<times> 'w st"
where
  "tryDelete config fetch scriptName ident s =
     (case deleteDeployment config fetch scriptName ident s of
        (None, s') \<Rightarrow> (TrySuccess, s')
      | (Some error, s') \<Rightarrow>
          (TryFailure (formatError error) (is_RateLimitError error), s'))"

section \<open>The batch deletion engine\<close>

definition delay :: "int \<Rightarrow> 'w st \<Rightarrow> 'w st" where
  "delay ms s = s\<lparr>trace := trace s @ [Delay ms]\<rparr>"

text \<open>
  \<^verbatim>\<open>(error.retryAfter || 60) * 1000\<close>: an absent hint, not-a-number and zero are all
  falsy and give 60.
\<close>

definition waitTime :: "jsnum option \<Rightarrow> int" where
  "waitTime retryAfter =
     (case retryAfter of
        Some (Fin n) \<Rightarrow> if n = 0 then 60 else n
      | _ \<Rightarrow> 60) * 1000"

text \<open>
  The optional callback: when one is given, the call is recorded in the trace and the
  callback may change the world; it is taken not to throw.
\<close>

type_synonym 'w callback = "nat \<Rightarrow> nat \<Rightarrow> string \<Rightarrow> 'w \<Rightarrow> 'w"

definition invoke :: "'w callback option \<Rightarrow> nat \<Rightarrow> nat \<Rightarrow> string \<Rightarrow> 'w st \<Rightarrow> 'w st" where
  "invoke onProgress completed n ident s =
     (case onProgress of
        None \<Rightarrow> s
      | Some f \<Rightarrow>
          s\<lparr>world := f completed n ident (world s),
            trace := trace s @ [Progress completed n ident]\<rparr>)"

text \<open>
  The head of the loop body of \<^verbatim>\<open>deleteDeployments\<close>: the first \<^verbatim>\<open>tryDelete\<close> and the
  block under \<^verbatim>\<open>// Retry once on rate limit error\<close>. After a rate-limited first
  attempt the code calls \<^verbatim>\<open>deleteDeployment\<close> again at once; only when that call throws a
  \<open>RateLimitError\<close> does it wait and call \<^verbatim>\<open>tryDelete\<close>; otherwise \<^verbatim>\<open>result\<close> stays
  the first failure.
\<close>

definition delete_with_retry ::
  "CloudflareConfig \<Rightarrow> ('w, 'r) fetch \<Rightarrow> string \<Rightarrow> string \<Rightarrow> 'w st \<Rightarrow> try_result \<times> 'w st"
where
  "delete_with_retry config fetch scriptName ident s =
     (case tryDelete config fetch scriptName ident s of
        (TryFailure err True, s1) \<Rightarrow>
          (case deleteDeployment config fetch scriptName ident s1 of
             (Some (RateLimitError ra), s2) \<Rightarrow>
               tryDelete config fetch scriptName ident (delay (waitTime ra) s2)
           | (other, s2) \<Rightarrow> (TryFailure err True, s2))
      | (result, s1) \<Rightarrow> (result, s1))"

record DeleteResult =
  success :: "string list"
  failed :: "(string \<times> string) list"

text \<open>The rest of the loop body: recording the result, the callback, the pause.\<close>

definition record_result ::
  "'w callback option \<Rightarrow> nat \<Rightarrow> nat \<Rightarrow> string \<Rightarrow> try_result \<Rightarrow> DeleteResult \<times> 'w st
     \<Rightarrow> DeleteResult \<times> 'w st"
where
  "record_result onProgress i n ident result acc =
     (case acc of (res, s) \<Rightarrow>
        (let (res', s') =
               (case result of
                  TrySuccess \<Rightarrow>
                    (res\<lparr>success := success res @ [ident]\<rparr>,
                     invoke onProgress (i + 1) n ident s)
                | TryFailure err rl \<Rightarrow>
                    (res\<lparr>failed := failed res @ [(ident, err)]\<rparr>, s))
         in (res', if int i < int n - 1 then delay requestDelay s' else s')))"

function deleteDeployments_loop ::
  "CloudflareConfig \<Rightarrow> ('w, 'r) fetch \<Rightarrow> string \<Rightarrow> string list \<Rightarrow> 'w callback option
     \<Rightarrow> nat \<Rightarrow> DeleteResult \<times> 'w st \<Rightarrow> DeleteResult \<times> 'w st"
where
  "deleteDeployments_loop config fetch scriptName deploymentIds onProgress i acc =
     (if i < length deploymentIds then
        (case delete_with_retry config fetch scriptName (deploymentIds ! i) (snd acc) of
           (result, s1) \<Rightarrow>
             deleteDeployments_loop config fetch scriptName deploymentIds onProgress (i + 1)
               (record_result onProgress i (length deploymentIds) (deploymentIds ! i) result
                  (fst acc, s1)))
      else acc)"
  by pat_completeness auto
termination
  by (relation "measure (\<lambda>(config, fetch, scriptName, deploymentIds, onProgress, i, acc).
        length deploymentIds - i)") auto

definition deleteDeployments ::
  "CloudflareConfig \<Rightarrow> ('w, 'r) fetch \<Rightarrow> string \<Rightarrow> string list \<Rightarrow> 'w callback option
     \<Rightarrow> 'w st \<Rightarrow> DeleteResult \<times> 'w st"
where
  "deleteDeployments config fetch scriptName deploymentIds onProgress s =
     deleteDeployments_loop config fetch scriptName deploymentIds onProgress 0
       (\<lparr>success = [], failed = []\<rparr>, s)"

text \<open>
  The repository also holds a later variant of the client, in which \<^verbatim>\<open>tryDelete\<close>
  returns the hint with the failure and the retry block waits first and then calls
  \<^verbatim>\<open>tryDelete\<close> once. It is modelled here for comparison only.
\<close>

datatype try_result_later = TrySuccessL | TryFailureL string bool "jsnum option"

definition tryDelete_later ::
  "CloudflareConfig \<Rightarrow> ('w, 'r) fetch \<Rightarrow> string \<Rightarrow> string \<Rightarrow> 'w st
     \<Rightarrow> try_result_later \<times> 'w st"
where
  "tryDelete_later config fetch scriptName ident s =
     (case deleteDeployment config fetch scriptName ident s of
        (None, s') \<Rightarrow> (TrySuccessL, s')
      | (Some error, s') \<Rightarrow>
          (TryFailureL (formatError error) (is_RateLimitError error)
             (case error of RateLimitError ra \<Rightarrow> ra | _ \<Rightarrow> None), s'))"

definition delete_with_retry_later ::
  "CloudflareConfig \<Rightarrow> ('w, 'r) fetch \<Rightarrow> string \<Rightarrow> string \<Rightarrow> 'w st
     \<Rightarrow> try_result_later \<times> 'w st"
where
  "delete_with_retry_later config fetch scriptName ident s =
     (case tryDelete_later config fetch scriptName ident s of
        (TryFailureL err True ra, s1) \<Rightarrow>
          tryDelete_later config fetch scriptName ident (delay (waitTime ra) s1)
      | (result, s1) \<Rightarrow> (result, s1))"

section \<open>The delete command\<close>

record DeleteOptions =
  dryRun :: bool
  force :: bool
  all_opt :: bool

text \<open>
  A choice offered by the picker: the deployment it stands for and whether it is
  disabled. Its label is left out: it is computed from the deployment, so a picker that
  reads labels is a picker that reads deployments.
\<close>

record choice =
  choice_value :: Deployment
  disabled :: bool

text \<open>
  The prompts are the user's: \<open>checkbox\<close> maps the choices to the selected
  deployments, and \<open>confirm\<close> maps the prompt (for all deployments or for a
  selection, with the count) to the answer.
\<close>

definition selectDeploymentsToDelete ::
  "(choice list \<Rightarrow> Deployment list) \<Rightarrow> Deployment list \<Rightarrow> Deployment list"
where
  "selectDeploymentsToDelete checkbox deployments' =
     (if length deployments' = 0 then []
      else checkbox
             (map (\<lambda>(index, d). \<lparr>choice_value = d, disabled = (index = 0)\<rparr>)
                (enumerate 0 deployments')))"

definition confirmDeletion :: "(bool \<Rightarrow> nat \<Rightarrow> bool) \<Rightarrow> nat \<Rightarrow> bool \<Rightarrow> bool" where
  "confirmDeletion confirm count' force_opt =
     (if force_opt then True else confirm False count')"

definition confirmDeleteAll :: "(bool \<Rightarrow> nat \<Rightarrow> bool) \<Rightarrow> nat \<Rightarrow> bool \<Rightarrow> bool" where
  "confirmDeleteAll confirm count' force_opt =
     (if force_opt then True else confirm True count')"

text \<open>
  The callback of the command writes the progress to the spinner; it does not change
  the world.
\<close>

definition show_progress :: "'w callback" where
  "show_progress completed n ident w = w"

text \<open>
  How \<^verbatim>\<open>deleteCommand\<close> ends: the listing threw (the \<^verbatim>\<open>catch\<close> block), one of the
  early returns, or the report of the engine. The process exits with code 1 in the first
  case and after a report with failures. The credentials are a parameter: reading them
  from the environment is left out.
\<close>

datatype outcome =
    CommandFailed thrown
  | NoDeployments
  | OnlyActive
  | NothingSelected
  | DryRun "Deployment list"
  | Cancelled
  | Deleted DeleteResult

definition deleteCommand ::
  "CloudflareConfig \<Rightarrow> ('w, DeploymentsResult) fetch \<Rightarrow> (choice list \<Rightarrow> Deployment list)
     \<Rightarrow> (bool \<Rightarrow> nat \<Rightarrow> bool) \<Rightarrow> string \<Rightarrow> DeleteOptions \<Rightarrow> 'w st \<Rightarrow> outcome \<times> 'w st"
where
  "deleteCommand config fetch checkbox confirm scriptName options s =
     (case listDeployments config fetch scriptName s of
        (Inl e, s1) \<Rightarrow> (CommandFailed e, s1)
      | (Inr deployments', s1) \<Rightarrow>
          if length deployments' = 0 then (NoDeployments, s1)
          else if length deployments' = 1 then (OnlyActive, s1)
          else
            (let deletableDeployments = drop 1 deployments';
                 toDelete =
                   (if all_opt options then deletableDeployments
                    else selectDeploymentsToDelete checkbox deployments')
             in if length toDelete = 0 then (NothingSelected, s1)
                else if dryRun options then (DryRun toDelete, s1)
                else if \<not> (if all_opt options
                            then confirmDeleteAll confirm (length toDelete) (force options)
                            else confirmDeletion confirm (length toDelete) (force options))
                then (Cancelled, s1)
                else
                  (case deleteDeployments config fetch scriptName
                          (map deployment_id toDelete) (Some show_progress) s1 of
                     (result, s2) \<Rightarrow> (Deleted result, s2))))"

section \<open>Reading a trace\<close>

fun attempted :: "event list \<Rightarrow> string list" where
  "attempted [] = []"
| "attempted (Attempt x out # es) = x # attempted es"
| "attempted (e # es) = attempted es"

fun delays :: "event list \<Rightarrow> int list" where
  "delays [] = []"
| "delays (Delay ms # es) = ms # delays es"
| "delays (e # es) = delays es"

fun progress_calls :: "event list \<Rightarrow> (nat \<times> nat \<times> string) list" where
  "progress_calls [] = []"
| "progress_calls (Progress c n x # es) = (c, n, x) # progress_calls es"
| "progress_calls (e # es) = progress_calls es"

text \<open>The outcomes of the requests of a trace, in order.\<close>

fun outcomes :: "event list \<Rightarrow> thrown option list" where
  "outcomes [] = []"
| "outcomes (Attempt x out # es) = out # outcomes es"
| "outcomes (e # es) = outcomes es"

text \<open>The events that end a pass of the loop: the callback, then the pause.\<close>

definition announce :: "'w callback option \<Rightarrow> nat \<Rightarrow> nat \<Rightarrow> string \<Rightarrow> event list" where
  "announce cb i n x = (case cb of None \<Rightarrow> [] | Some f \<Rightarrow> [Progress (Suc i) n x])"

definition pace :: "nat \<Rightarrow> nat \<Rightarrow> event list" where
  "pace i n = (if Suc i < n then [Delay requestDelay] else [])"


text \<open>
  One pass of the loop body, for the identifier \<open>x\<close> at position \<open>j\<close> of \<open>n\<close>:
  from the state \<open>s\<close> the handling of \<open>x\<close> ends with the result \<open>r\<close>, and
  recording \<open>r\<close> leaves the state \<open>s'\<close>.
\<close>

definition pass ::
  "CloudflareConfig \<Rightarrow> ('w, 'r) fetch \<Rightarrow> string \<Rightarrow> 'w callback option \<Rightarrow> nat \<Rightarrow> nat \<Rightarrow> string
     \<Rightarrow> 'w st \<Rightarrow> try_result \<Rightarrow> 'w st \<Rightarrow> bool"
where
  "pass config fetch scriptName cb n j x s r s' \<longleftrightarrow>
     (\<exists>s1 res res'.
        delete_with_retry config fetch scriptName x s = (r, s1) \<and>
        record_result cb j n x r (res, s1) = (res', s'))"

text \<open>
  The report that a list of results, one for each identifier, calls for: the identifiers
  whose result is a success, and the identifiers whose result is a failure, each with
  the error message of that failure; both in the order of the identifiers.
\<close>

definition succeeded_of :: "string list \<Rightarrow> try_result list \<Rightarrow> string list" where
  "succeeded_of ids rs = map fst (filter (\<lambda>p. snd p = TrySuccess) (zip ids rs))"

definition failed_of :: "string list \<Rightarrow> try_result list \<Rightarrow> (string \<times> string) list" where
  "failed_of ids rs =
     concat (map (\<lambda>(x, r). case r of TrySuccess \<Rightarrow> [] | TryFailure err rl \<Rightarrow> [(x, err)])
       (zip ids rs))"

section \<open>Remote sides used as examples\<close>

definition ok_response :: "unit Response" where
  "ok_response =
     \<lparr>status = 200, statusText = ''OK'', retry_after = None,
      json = Envelope \<lparr>resp_success = True, resp_result = (), resp_errors = Some [],
                        resp_messages = []\<rparr>\<rparr>"

text \<open>A rate-limited response with the given header (of at most 20 characters).\<close>

definition rate_limited_response :: "string option \<Rightarrow> 'r Response" where
  "rate_limited_response h =
     \<lparr>status = 429, statusText = ''Too Many Requests'',
      retry_after = map_option Abs_header_value h, json = Unparsable\<rparr>"

definition not_found_response :: "'r Response" where
  "not_found_response =
     \<lparr>status = 404, statusText = ''Not Found'', retry_after = None, json = Unparsable\<rparr>"




text \<open>A remote side for which \<^verbatim>\<open>fetch\<close> rejects with the same value every time.\<close>

definition rejecting :: "thrown \<Rightarrow> (unit, 'r) fetch" where
  "rejecting e w req = (Inl e, w)"

text \<open>A remote side that accepts every request.\<close>

definition always_ok :: "(unit, unit) fetch" where
  "always_ok w req = (Inr ok_response, w)"

text \<open>
  A remote side that answers from a script, one entry for each request, and accepts
  every request once the script is used up.
\<close>

definition scripted :: "((thrown + unit Response) list, unit) fetch" where
  "scripted w req = (case w of [] \<Rightarrow> (Inr ok_response, []) | r # rs \<Rightarrow> (r, rs))"

text \<open>A remote side that answers every request with a listing of the given deployments.\<close>

definition listing_remote :: "Deployment list \<Rightarrow> (unit, DeploymentsResult) fetch" where
  "listing_remote ds w req =
     (Inr \<lparr>status = 200, statusText = ''OK'', retry_after = None,
           json = Envelope \<lparr>resp_success = True, resp_result = \<lparr>deployments = ds\<rparr>,
                             resp_errors = Some [], resp_messages = []\<rparr>\<rparr>, w)"

definition example_deployment :: "string \<Rightarrow> Deployment" where
  "example_deployment i =
     \<lparr>deployment_id = i, created_on = ''2025-01-01T00:00:00Z'',
      author_email = ''dev@example.com'', source = ''wrangler'', strategy = ''percentage'',
      versions = []\<rparr>"

text \<open>A user who checks every choice that can be checked.\<close>

definition pick_enabled :: "choice list \<Rightarrow> Deployment list" where
  "pick_enabled cs = map choice_value (filter (\<lambda>c. \<not> disabled c) cs)"

text \<open>A user who confirms every prompt.\<close>

definition confirm_yes :: "bool \<Rightarrow> nat \<Rightarrow> bool" where
  "confirm_yes every n = True"

definition example_config :: CloudflareConfig where
  "example_config = \<lparr>accountId = ''acct'', apiToken = ''tok''\<rparr>"

section \<open>Facts about numbers\<close>

declare binary_digits.simps [simp del]

lemma binary_digits_le: "m < 2 ^ k \<Longrightarrow> binary_digits m \<le> k"
proof (induction k arbitrary: m)
  case 0
  then show ?case by (simp add: binary_digits.simps)
next
  case (Suc k)
  show ?case
  proof (cases "m = 0")
    case True
    then show ?thesis by (simp add: binary_digits.simps)
  next
    case False
    from Suc.prems have "m div 2 < 2 ^ k" by simp
    from Suc.IH [OF this] False show ?thesis
      by (subst binary_digits.simps) simp
  qed
qed

text \<open>An integer below \<open>2^53\<close> is a Number.\<close>

lemma to_number_small: "m < 2 ^ 53 \<Longrightarrow> to_number m = m"
  using binary_digits_le [of m 53] by (simp add: to_number_def Let_def)


section \<open>Facts about the engine\<close>

declare deleteDeployments_loop.simps [simp del]

lemma attempted_append [simp]: "attempted (xs @ ys) = attempted xs @ attempted ys"
  by (induction xs rule: attempted.induct) auto

lemma delays_append [simp]: "delays (xs @ ys) = delays xs @ delays ys"
  by (induction xs rule: delays.induct) auto

lemma progress_calls_append [simp]:
  "progress_calls (xs @ ys) = progress_calls xs @ progress_calls ys"
  by (induction xs rule: progress_calls.induct) auto

lemma outcomes_append [simp]: "outcomes (xs @ ys) = outcomes xs @ outcomes ys"
  by (induction xs rule: outcomes.induct) auto

lemma loop_step:
  "i < length ids \<Longrightarrow>
   deleteDeployments_loop config fetch sn ids cb i acc =
     deleteDeployments_loop config fetch sn ids cb (Suc i)
       (record_result cb i (length ids) (ids ! i)
          (fst (delete_with_retry config fetch sn (ids ! i) (snd acc)))
          (fst acc, snd (delete_with_retry config fetch sn (ids ! i) (snd acc))))"
  by (subst deleteDeployments_loop.simps) (simp split: prod.splits)

lemma loop_done:
  "\<not> i < length ids \<Longrightarrow> deleteDeployments_loop config fetch sn ids cb i acc = acc"
  by (subst deleteDeployments_loop.simps) simp

lemma request_trace: "trace (snd (request config fetch ep m s)) = trace s"
  by (simp add: request_def split: prod.splits sum.splits)

lemma deleteDeployment_trace:
  assumes "deleteDeployment config fetch sn x s = (out, s')"
  shows "trace s' = trace s @ [Attempt x out]"
proof -
  obtain r s1 where req: "request config fetch
             (''/accounts/'' @ accountId config @ ''/workers/scripts/'' @ sn
                @ ''/deployments/'' @ x) ''DELETE'' s = (r, s1)"
    by (metis surj_pair)
  have "trace s1 = trace s"
    using request_trace [of config fetch _ "''DELETE''" s] req by (metis snd_conv)
  with assms req show ?thesis
    unfolding deleteDeployment_def by (auto simp: Let_def)
qed

lemma tryDelete_cases:
  assumes "tryDelete config fetch sn x s = (r, s')"
  obtains (ok) "r = TrySuccess" "deleteDeployment config fetch sn x s = (None, s')"
    | (err) e where "r = TryFailure (formatError e) (is_RateLimitError e)"
        "deleteDeployment config fetch sn x s = (Some e, s')"
  using assms by (auto simp: tryDelete_def split: prod.splits option.splits)

text \<open>The four ways the handling of one identifier can go, with the events of each.\<close>

lemma delete_with_retry_cases:
  assumes "delete_with_retry config fetch sn x s = (r, s')"
  obtains
    (first_ok) "r = TrySuccess" "trace s' = trace s @ [Attempt x None]"
  | (first_fail) e where "\<not> is_RateLimitError e" "r = TryFailure (formatError e) False"
      "trace s' = trace s @ [Attempt x (Some e)]"
  | (second) ra out where "\<forall>ra'. out \<noteq> Some (RateLimitError ra')"
      "r = TryFailure (formatError (RateLimitError ra)) True"
      "trace s' = trace s @ [Attempt x (Some (RateLimitError ra)), Attempt x out]"
  | (third) ra ra' out where
      "r = (case out of None \<Rightarrow> TrySuccess
            | Some e \<Rightarrow> TryFailure (formatError e) (is_RateLimitError e))"
      "trace s' = trace s @ [Attempt x (Some (RateLimitError ra)),
         Attempt x (Some (RateLimitError ra')), Delay (waitTime ra'), Attempt x out]"
proof -
  obtain r1 s1 where t1: "tryDelete config fetch sn x s = (r1, s1)" by (metis surj_pair)
  from t1 show thesis
  proof (cases rule: tryDelete_cases)
    case ok
    then have "r = TrySuccess" "s' = s1"
      using assms t1 by (auto simp: delete_with_retry_def)
    with ok deleteDeployment_trace [OF ok(2)] first_ok show thesis by simp
  next
    case (err e)
    note tr1 = deleteDeployment_trace [OF err(2)]
    show thesis
    proof (cases "is_RateLimitError e")
      case False
      then have "r = TryFailure (formatError e) False" "s' = s1"
        using assms t1 err by (auto simp: delete_with_retry_def)
      with False tr1 first_fail show thesis by simp
    next
      case True
      then obtain ra where e: "e = RateLimitError ra" by (cases e) auto
      obtain out s2 where d2: "deleteDeployment config fetch sn x s1 = (out, s2)"
        by (metis surj_pair)
      note tr2 = deleteDeployment_trace [OF d2]
      show thesis
      proof (cases "\<exists>ra'. out = Some (RateLimitError ra')")
        case False
        then have "r = TryFailure (formatError e) True" "s' = s2"
          using assms t1 err True d2
          by (auto simp: delete_with_retry_def split: option.splits thrown.splits)
        with False tr1 tr2 e second show thesis by simp
      next
        case T2: True
        then obtain ra' where out: "out = Some (RateLimitError ra')" by blast
        obtain r3 s3 where
          t3: "tryDelete config fetch sn x (delay (waitTime ra') s2) = (r3, s3)"
          by (metis surj_pair)
        have rs: "r = r3" "s' = s3"
          using assms t1 err True d2 out t3 by (auto simp: delete_with_retry_def)
        have trd: "trace (delay (waitTime ra') s2) = trace s2 @ [Delay (waitTime ra')]"
          by (simp add: delay_def)
        from t3 show thesis
        proof (cases rule: tryDelete_cases)
          case ok
          with deleteDeployment_trace [OF ok(2)] trd tr1 tr2 e out rs
            third [of None ra ra']
          show thesis by simp
        next
          case (err e3)
          with deleteDeployment_trace [OF err(2)] trd tr1 tr2 e out rs
            third [of "Some e3" ra ra']
          show thesis by simp
        qed
      qed
    qed
  qed
qed

lemma record_result_success:
  "record_result cb i n x TrySuccess (res, s) =
     (res\<lparr>success := success res @ [x]\<rparr>,
      (if int i < int n - 1 then delay requestDelay else (\<lambda>s. s)) (invoke cb (i + 1) n x s))"
  by (simp add: record_result_def)

lemma record_result_failure:
  "record_result cb i n x (TryFailure err rl) (res, s) =
     (res\<lparr>failed := failed res @ [(x, err)]\<rparr>,
      (if int i < int n - 1 then delay requestDelay else (\<lambda>s. s)) s)"
  by (simp add: record_result_def)

lemma trace_invoke: "trace (invoke cb (Suc i) n x s) = trace s @ announce cb i n x"
  by (simp add: invoke_def announce_def split: option.splits)

lemma trace_delay: "trace (delay ms s) = trace s @ [Delay ms]"
  by (simp add: delay_def)

lemma record_result_trace:
  assumes "record_result cb i n x r (res, s1) = (res', s2)"
  shows "trace s2 =
           trace s1 @ (if r = TrySuccess then announce cb i n x else []) @ pace i n"
proof -
  have p: "int i < int n - 1 \<longleftrightarrow> Suc i < n" by auto
  show ?thesis
    using assms
    by (cases r)
       (auto simp: record_result_success record_result_failure trace_invoke trace_delay
          pace_def p)
qed

lemma record_result_report:
  assumes "record_result cb i n x r (res, s1) = (res', s2)"
  shows "res' = (case r of
                   TrySuccess \<Rightarrow> res\<lparr>success := success res @ [x]\<rparr>
                 | TryFailure err rl \<Rightarrow> res\<lparr>failed := failed res @ [(x, err)]\<rparr>)"
  using assms by (cases r) (auto simp: record_result_success record_result_failure)

lemma waitTime_not_requestDelay: "waitTime ra \<noteq> requestDelay"
  by (auto simp: waitTime_def requestDelay_def split: option.splits jsnum.splits)

lemma delete_with_retry_trace:
  assumes "delete_with_retry config fetch sn x s = (r, s1)"
  obtains core where "trace s1 = trace s @ core" "set (attempted core) = {x}"
    "filter (\<lambda>d. d = requestDelay) (delays core) = []" "progress_calls core = []"
  using assms
  by (cases rule: delete_with_retry_cases) (auto simp: waitTime_not_requestDelay)

text \<open>
  Induction along the loop: a property of the accumulator at the exit, carried back
  over one pass of the body.
\<close>

lemma loop_induct_rule:
  fixes P :: "nat \<Rightarrow> DeleteResult \<times> 'w st \<Rightarrow> DeleteResult \<times> 'w st \<Rightarrow> bool"
    and fetch :: "('w, 'r) fetch"
  assumes fin: "\<And>i acc. \<not> i < length ids \<Longrightarrow> P i acc acc"
    and step: "\<And>i res s r s1 res' s2 fin.
      i < length ids \<Longrightarrow>
      delete_with_retry config fetch sn (ids ! i) s = (r, s1) \<Longrightarrow>
      record_result cb i (length ids) (ids ! i) r (res, s1) = (res', s2) \<Longrightarrow>
      P (Suc i) (res', s2) fin \<Longrightarrow> P i (res, s) fin"
  shows "P i acc (deleteDeployments_loop config fetch sn ids cb i acc)"
proof (induction "length ids - i" arbitrary: i acc)
  case 0
  then show ?case by (simp add: loop_done fin)
next
  case (Suc n)
  then have i: "i < length ids" and n: "n = length ids - Suc i" by auto
  obtain res s where acc: "acc = (res, s)" by (cases acc)
  obtain r s1 where d: "delete_with_retry config fetch sn (ids ! i) s = (r, s1)"
    by (metis surj_pair)
  obtain res' s2 where
    rr: "record_result cb i (length ids) (ids ! i) r (res, s1) = (res', s2)"
    by (metis surj_pair)
  have eq: "deleteDeployments_loop config fetch sn ids cb i (res, s) =
      deleteDeployments_loop config fetch sn ids cb (Suc i) (res', s2)"
    using loop_step [OF i, of config fetch sn cb "(res, s)"] d rr by simp
  show ?case
    unfolding acc eq by (rule step [OF i d rr]) (rule Suc.hyps(1) [OF n])
qed

lemma drop_nth_Suc: "i < length ids \<Longrightarrow> drop i ids = ids ! i # drop (Suc i) ids"
  by (simp add: Cons_nth_drop_Suc)

lemma loop_partition:
  fixes fetch :: "('w, 'r) fetch" and acc :: "DeleteResult \<times> 'w st"
  shows "\<exists>flags. length flags = length ids - i \<and>
     success (fst (deleteDeployments_loop config fetch sn ids cb i acc)) =
       success (fst acc) @ map fst (filter snd (zip (drop i ids) flags)) \<and>
     map fst (failed (fst (deleteDeployments_loop config fetch sn ids cb i acc))) =
       map fst (failed (fst acc)) @
       map fst (filter (\<lambda>p. \<not> snd p) (zip (drop i ids) flags))"
proof (rule loop_induct_rule [where P = "\<lambda>i acc fin. \<exists>flags. length flags = length ids - i \<and>
     success (fst fin) = success (fst acc) @ map fst (filter snd (zip (drop i ids) flags)) \<and>
     map fst (failed (fst fin)) = map fst (failed (fst acc)) @
       map fst (filter (\<lambda>p. \<not> snd p) (zip (drop i ids) flags))"], goal_cases)
  case (1 i acc)
  then show ?case by simp
next
  case (2 i res s r s1 res' s2 fin)
  then obtain flags where fl: "length flags = length ids - Suc i"
    "success (fst fin) = success res' @ map fst (filter snd (zip (drop (Suc i) ids) flags))"
    "map fst (failed (fst fin)) = map fst (failed res') @
       map fst (filter (\<lambda>p. \<not> snd p) (zip (drop (Suc i) ids) flags))"
    by auto
  note dr = drop_nth_Suc [OF 2(1)]
  note res' = record_result_report [OF 2(3)]
  show ?case
  proof (cases r)
    case TrySuccess
    with res' fl dr 2(1) show ?thesis
      by (intro exI [of _ "True # flags"]) simp
  next
    case (TryFailure err rl)
    with res' fl dr 2(1) show ?thesis
      by (intro exI [of _ "False # flags"]) simp
  qed
qed

lemma loop_pacing:
  fixes fetch :: "('w, 'r) fetch" and acc :: "DeleteResult \<times> 'w st"
  shows "\<exists>new.
     trace (snd (deleteDeployments_loop config fetch sn ids cb i acc)) = trace (snd acc) @ new \<and>
     filter (\<lambda>d. d = requestDelay) (delays new) =
       replicate (length ids - 1 - i) requestDelay \<and>
     set (attempted new) = set (drop i ids)"
proof (rule loop_induct_rule [where P = "\<lambda>i acc fin. \<exists>new.
     trace (snd fin) = trace (snd acc) @ new \<and>
     filter (\<lambda>d. d = requestDelay) (delays new) =
       replicate (length ids - 1 - i) requestDelay \<and>
     set (attempted new) = set (drop i ids)"], goal_cases)
  case (1 i acc)
  then show ?case by simp
next
  case (2 i res s r s1 res' s2 fin)
  then obtain new where new: "trace (snd fin) = trace s2 @ new"
     "filter (\<lambda>d. d = requestDelay) (delays new) =
        replicate (length ids - 1 - Suc i) requestDelay"
     "set (attempted new) = set (drop (Suc i) ids)" by auto
  from 2(2) obtain core where core: "trace s1 = trace s @ core"
    "set (attempted core) = {ids ! i}"
    "filter (\<lambda>d. d = requestDelay) (delays core) = []" "progress_calls core = []"
    by (rule delete_with_retry_trace)
  note tr2 = record_result_trace [OF 2(3)]
  let ?mid = "(if r = TrySuccess then announce cb i (length ids) (ids ! i) else [])
                @ pace i (length ids)"
  have att_mid: "attempted ?mid = []"
    by (simp add: announce_def pace_def split: option.splits)
  have del_mid: "filter (\<lambda>d. d = requestDelay) (delays ?mid) =
      (if Suc i < length ids then [requestDelay] else [])"
    by (simp add: announce_def pace_def split: option.splits)
  note dr = drop_nth_Suc [OF 2(1)]
  have rep: "(if Suc i < length ids then [requestDelay] else [])
        @ replicate (length ids - 1 - Suc i) requestDelay
      = replicate (length ids - 1 - i) requestDelay"
  proof (cases "Suc i < length ids")
    case True
    then have "length ids - 1 - i = Suc (length ids - 1 - Suc i)" by simp
    then show ?thesis using True by simp
  next
    case False
    then show ?thesis using 2(1) by simp
  qed
  have "trace (snd fin) = trace (snd (res, s)) @ (core @ ?mid @ new)"
    using new(1) tr2 core(1) by simp
  moreover have "filter (\<lambda>d. d = requestDelay) (delays (core @ ?mid @ new)) =
      replicate (length ids - 1 - i) requestDelay"
    using core(3) del_mid new(2) rep by (simp del: append_assoc replicate.simps)
  moreover have "set (attempted (core @ ?mid @ new)) = set (drop i ids)"
    using core(2) att_mid new(3) dr by (simp del: append_assoc)
  ultimately show ?case by blast
qed



text \<open>The report follows the results of the passes of the loop.\<close>

lemma filed_mset:
  "length rs = length ids \<Longrightarrow>
   mset (succeeded_of ids rs) + mset (map fst (failed_of ids rs)) = mset ids"
proof (induction ids rs rule: list_induct2')
  case (4 x xs r rs)
  then show ?case
    by (cases r) (simp_all add: succeeded_of_def failed_of_def)
qed (simp_all add: succeeded_of_def failed_of_def)

lemma loop_outcomes:
  fixes fetch :: "('w, 'r) fetch" and acc :: "DeleteResult \<times> 'w st"
  shows "\<exists>rs ss. length rs = length ids - i \<and> length ss = Suc (length ids - i) \<and>
     ss ! 0 = snd acc \<and>
     ss ! (length ids - i) = snd (deleteDeployments_loop config fetch sn ids cb i acc) \<and>
     (\<forall>k < length ids - i.
        pass config fetch sn cb (length ids) (i + k) (ids ! (i + k)) (ss ! k) (rs ! k)
          (ss ! Suc k)) \<and>
     success (fst (deleteDeployments_loop config fetch sn ids cb i acc)) =
       success (fst acc) @ succeeded_of (drop i ids) rs \<and>
     failed (fst (deleteDeployments_loop config fetch sn ids cb i acc)) =
       failed (fst acc) @ failed_of (drop i ids) rs"
proof (rule loop_induct_rule [where P = "\<lambda>i acc fin.
     \<exists>rs ss. length rs = length ids - i \<and> length ss = Suc (length ids - i) \<and>
     ss ! 0 = snd acc \<and> ss ! (length ids - i) = snd fin \<and>
     (\<forall>k < length ids - i.
        pass config fetch sn cb (length ids) (i + k) (ids ! (i + k)) (ss ! k) (rs ! k)
          (ss ! Suc k)) \<and>
     success (fst fin) = success (fst acc) @ succeeded_of (drop i ids) rs \<and>
     failed (fst fin) = failed (fst acc) @ failed_of (drop i ids) rs"], goal_cases)
  case (1 i acc)
  show ?case
    by (rule exI [of _ "[]"], rule exI [of _ "[snd acc]"])
       (use 1 in \<open>simp add: succeeded_of_def failed_of_def\<close>)
next
  case (2 i res s r s1 res' s2 fin)
  then obtain rs ss where ih: "length rs = length ids - Suc i"
    "length ss = Suc (length ids - Suc i)" "ss ! 0 = s2" "ss ! (length ids - Suc i) = snd fin"
    "\<forall>k < length ids - Suc i.
        pass config fetch sn cb (length ids) (Suc i + k) (ids ! (Suc i + k)) (ss ! k) (rs ! k)
          (ss ! Suc k)"
    "success (fst fin) = success res' @ succeeded_of (drop (Suc i) ids) rs"
    "failed (fst fin) = failed res' @ failed_of (drop (Suc i) ids) rs"
    unfolding fst_conv snd_conv by blast
  note dr = drop_nth_Suc [OF 2(1)]
  note res' = record_result_report [OF 2(3)]
  have first: "pass config fetch sn cb (length ids) i (ids ! i) s r s2"
    unfolding pass_def using 2(2,3) by blast
  have len: "length (r # rs) = length ids - i" "length (s # ss) = Suc (length ids - i)"
    using ih(1,2) 2(1) by simp_all
  have ends: "(s # ss) ! 0 = snd (res, s)" "(s # ss) ! (length ids - i) = snd fin"
    using ih(4) 2(1) by (simp_all add: Suc_diff_Suc)
  have each: "pass config fetch sn cb (length ids) (i + k) (ids ! (i + k)) ((s # ss) ! k)
      ((r # rs) ! k) ((s # ss) ! Suc k)" if k: "k < length ids - i" for k
  proof (cases k)
    case 0
    with first ih(3) show ?thesis by simp
  next
    case (Suc k')
    with k have "k' < length ids - Suc i" by simp
    with ih(5) Suc show ?thesis by simp
  qed
  have succ: "success (fst fin) = success (fst (res, s)) @ succeeded_of (drop i ids) (r # rs)"
    using ih(6) res' dr by (cases r) (simp_all add: succeeded_of_def)
  have fail: "failed (fst fin) = failed (fst (res, s)) @ failed_of (drop i ids) (r # rs)"
    using ih(7) res' dr by (cases r) (simp_all add: failed_of_def)
  show ?case
    by (rule exI [of _ "r # rs"], rule exI [of _ "s # ss"])
       (use len ends each succ fail in blast)
qed

lemma run_outcomes:
  fixes fetch :: "('w, 'r) fetch" and s :: "'w st"
  shows "\<exists>rs ss. length rs = length ids \<and> length ss = Suc (length ids) \<and>
     ss ! 0 = s \<and> ss ! length ids = snd (deleteDeployments config fetch sn ids cb s) \<and>
     (\<forall>k < length ids.
        pass config fetch sn cb (length ids) k (ids ! k) (ss ! k) (rs ! k) (ss ! Suc k)) \<and>
     success (fst (deleteDeployments config fetch sn ids cb s)) = succeeded_of ids rs \<and>
     failed (fst (deleteDeployments config fetch sn ids cb s)) = failed_of ids rs"
  using loop_outcomes [of ids 0 "(\<lparr>success = [], failed = []\<rparr>, s)" config fetch sn cb]
  by (simp add: deleteDeployments_def)

lemma distinct_of_mset: "mset xs = mset ys \<Longrightarrow> distinct ys \<Longrightarrow> distinct xs"
  by (metis mset_eq_imp_distinct_iff)

lemma distinct_subseq: "subseq xs ys \<Longrightarrow> distinct ys \<Longrightarrow> distinct xs"
  using subseqs_distinctD [of xs ys] by simp



lemma sanitize_rate_limit_message: "sanitize rate_limit_message = rate_limit_message"
  by (simp add: rate_limit_message_def match_bearer_def canonicalize_def)

lemma sanitize_not_found_message: "sanitize not_found_message = not_found_message"
  by (simp add: not_found_message_def match_bearer_def canonicalize_def)

lemma sanitize_permission_denied_message:
  "sanitize permission_denied_message = permission_denied_message"
  by (simp add: permission_denied_message_def match_bearer_def canonicalize_def)

text \<open>Rewrite rules that run the engine on a concrete input.\<close>

lemmas run_simps =
  deleteDeployments_def loop_step loop_done record_result_def delete_with_retry_def
  tryDelete_def deleteDeployment_def request_def handle_response_def scripted_def
  ok_response_def rate_limited_response_def not_found_response_def delay_def invoke_def
  waitTime_def requestDelay_def example_config_def show_progress_def parseInt_def
  is_space_def is_digit_def Abs_header_value_inverse to_number_small
  digits_val_def digit_val_def sanitize_rate_limit_message sanitize_not_found_message
  sanitize_permission_denied_message Let_def

lemma mixed_run:
  "deleteDeployments example_config scripted ''w'' [''a'', ''b''] (Some show_progress)
      \<lparr>world = [Inr not_found_response, Inr ok_response], trace = []\<rparr> =
   (\<lparr>success = [''b''], failed = [(''a'', not_found_message)]\<rparr>,
    \<lparr>world = [],
     trace = [Attempt ''a'' (Some (CloudflareAPIError not_found_message (Some 404) None)),
              Delay 200, Attempt ''b'' None, Progress 2 2 ''b'']\<rparr>)"
  by (simp add: run_simps)

section \<open>The batch report and the pacing\<close>

lemma mset_split:
  "mset (map f (filter P zs)) + mset (map f (filter (\<lambda>p. \<not> P p) zs)) = mset (map f zs)"
  by (induction zs) auto

lemma repeated_run:
  "deleteDeployments example_config scripted ''w'' [''a'', ''a''] None
      \<lparr>world = [Inr ok_response, Inr not_found_response], trace = []\<rparr> =
   (\<lparr>success = [''a''], failed = [(''a'', not_found_message)]\<rparr>,
    \<lparr>world = [],
     trace = [Attempt ''a'' None, Delay 200,
              Attempt ''a'' (Some (CloudflareAPIError not_found_message (Some 404) None))]\<rparr>)"
  by (simp add: run_simps)

text \<open>
  C4, as the claim states it, fails for an input that repeats an identifier: the engine
  handles positions, not identifiers. With the input \<open>[a, a]\<close>, the first request
  accepted and the second answered 404, the identifier \<open>a\<close> is in both lists of the
  report.
\<close>

theorem repeated_identifier_counterexample:
  "success (fst
     (deleteDeployments example_config scripted ''w'' [''a'', ''a''] None
        \<lparr>world = [Inr ok_response, Inr not_found_response], trace = []\<rparr>)) = [''a''] \<and>
   failed (fst
     (deleteDeployments example_config scripted ''w'' [''a'', ''a''] None
        \<lparr>world = [Inr ok_response, Inr not_found_response], trace = []\<rparr>)) =
     [(''a'', not_found_message)]"
  unfolding repeated_run by simp

text \<open>
  C4, amended. A run is one pass of the loop body for each position of the input, in
  order, each from the state the pass before it left (\<open>ss\<close>), whatever the results
  of the passes before it were; the pass of position \<open>k\<close> handles the identifier at
  \<open>k\<close> and ends with a result (\<open>rs ! k\<close>). The report is made of these results
  and nothing else: \<open>success\<close> is the list of the identifiers at the positions whose
  pass ended in success, \<open>failed\<close> the list of the identifiers at the positions whose
  pass ended in failure, each with the error message of that failure, both in input
  order. So the identifier at each position is filed once, in one of the two lists, and
  for an input that repeats no identifier each identifier is in exactly one of the two
  lists, exactly once. Every identifier of the input is requested. The engine does not
  throw for a failed identifier: every call of the client inside it is under a
  \<^verbatim>\<open>catch\<close>, and \<open>deleteDeployments\<close> returns the report for every remote side.
\<close>

theorem report_partitions_input:
  fixes fetch :: "('w, 'r) fetch" and s :: "'w st"
  shows "\<exists>rs ss new.
     length rs = length ids \<and> length ss = Suc (length ids) \<and>
     ss ! 0 = s \<and> ss ! length ids = snd (deleteDeployments config fetch sn ids cb s) \<and>
     (\<forall>k < length ids.
        pass config fetch sn cb (length ids) k (ids ! k) (ss ! k) (rs ! k) (ss ! Suc k)) \<and>
     success (fst (deleteDeployments config fetch sn ids cb s)) = succeeded_of ids rs \<and>
     failed (fst (deleteDeployments config fetch sn ids cb s)) = failed_of ids rs \<and>
     mset (success (fst (deleteDeployments config fetch sn ids cb s))) +
       mset (map fst (failed (fst (deleteDeployments config fetch sn ids cb s)))) = mset ids \<and>
     (distinct ids \<longrightarrow>
        distinct (success (fst (deleteDeployments config fetch sn ids cb s)) @
                  map fst (failed (fst (deleteDeployments config fetch sn ids cb s))))) \<and>
     trace (snd (deleteDeployments config fetch sn ids cb s)) = trace s @ new \<and>
     set (attempted new) = set ids"
proof -
  let ?run = "deleteDeployments config fetch sn ids cb s"
  obtain rs ss where o: "length rs = length ids" "length ss = Suc (length ids)"
    "ss ! 0 = s" "ss ! length ids = snd ?run"
    "\<forall>k < length ids.
        pass config fetch sn cb (length ids) k (ids ! k) (ss ! k) (rs ! k) (ss ! Suc k)"
    "success (fst ?run) = succeeded_of ids rs" "failed (fst ?run) = failed_of ids rs"
    using run_outcomes [of ids s config fetch sn cb] by blast
  obtain new where new: "trace (snd ?run) = trace s @ new" "set (attempted new) = set ids"
    using loop_pacing [of config fetch sn ids cb 0 "(\<lparr>success = [], failed = []\<rparr>, s)"]
    by (auto simp: deleteDeployments_def)
  have m: "mset (success (fst ?run)) + mset (map fst (failed (fst ?run))) = mset ids"
    unfolding o(6,7) by (rule filed_mset [OF o(1)])
  have d: "distinct (success (fst ?run) @ map fst (failed (fst ?run)))" if "distinct ids"
    using m that distinct_of_mset [of "success (fst ?run) @ map fst (failed (fst ?run))" ids]
    by simp
  show ?thesis
    by (rule exI [of _ rs], rule exI [of _ ss], rule exI [of _ new])
       (use o new m d in blast)
qed

lemma mixed_first_handling:
  "delete_with_retry example_config scripted ''w'' ''a''
      \<lparr>world = [Inr not_found_response, Inr ok_response], trace = []\<rparr> =
   (TryFailure not_found_message False,
    \<lparr>world = [Inr ok_response],
     trace = [Attempt ''a'' (Some (CloudflareAPIError not_found_message (Some 404) None))]\<rparr>)"
  by (simp add: run_simps)

theorem report_partitions_input_witness:
  "distinct [''a'', ''b''] \<and>
   distinct ([''b''] @ map fst [(''a'', not_found_message)]) \<and>
   (\<exists>rs. length rs = 2 \<and> rs ! 0 = TryFailure not_found_message False \<and>
      [''b''] = succeeded_of [''a'', ''b''] rs \<and>
      [(''a'', not_found_message)] = failed_of [''a'', ''b''] rs)"
proof -
  let ?s = "\<lparr>world = [Inr not_found_response, Inr ok_response], trace = []\<rparr>
              :: (thrown + unit Response) list st"
  have ids: "distinct [''a'', ''b'']" by simp
  from report_partitions_input [of "[''a'', ''b'']" ?s example_config scripted "''w''"
      "Some show_progress", unfolded mixed_run fst_conv snd_conv]
  obtain rs ss where o: "length rs = length [''a'', ''b'']" "ss ! 0 = ?s"
    "\<forall>k < length [''a'', ''b''].
        pass example_config scripted ''w'' (Some show_progress) (length [''a'', ''b'']) k
          ([''a'', ''b''] ! k) (ss ! k) (rs ! k) (ss ! Suc k)"
    "success \<lparr>success = [''b''], failed = [(''a'', not_found_message)]\<rparr> =
       succeeded_of [''a'', ''b''] rs"
    "failed \<lparr>success = [''b''], failed = [(''a'', not_found_message)]\<rparr> =
       failed_of [''a'', ''b''] rs"
    "distinct [''a'', ''b''] \<longrightarrow>
       distinct (success \<lparr>success = [''b''], failed = [(''a'', not_found_message)]\<rparr> @
         map fst (failed \<lparr>success = [''b''], failed = [(''a'', not_found_message)]\<rparr>))"
    by blast
  have "0 < length [''a'', ''b'']" by simp
  with o(3) have "pass example_config scripted ''w'' (Some show_progress)
      (length [''a'', ''b'']) 0 ([''a'', ''b''] ! 0) (ss ! 0) (rs ! 0) (ss ! Suc 0)"
    by blast
  then obtain s1 where
    "delete_with_retry example_config scripted ''w'' ''a'' ?s = (rs ! 0, s1)"
    unfolding pass_def o(2) by auto
  then have first: "rs ! 0 = TryFailure not_found_message False"
    unfolding mixed_first_handling by simp
  have d: "distinct ([''b''] @ map fst [(''a'', not_found_message)])"
    using o(6) ids by simp
  have "length rs = 2 \<and> rs ! 0 = TryFailure not_found_message False \<and>
      [''b''] = succeeded_of [''a'', ''b''] rs \<and>
      [(''a'', not_found_message)] = failed_of [''a'', ''b''] rs"
    using o(1,4,5) first by simp
  then have "\<exists>rs. length rs = 2 \<and> rs ! 0 = TryFailure not_found_message False \<and>
      [''b''] = succeeded_of [''a'', ''b''] rs \<and>
      [(''a'', not_found_message)] = failed_of [''a'', ''b''] rs"
    by (rule exI)
  with ids d show ?thesis by blast
qed




section \<open>Progress callback\<close>





section \<open>Rate limits\<close>












text \<open>
  C3: the code does not do what the claim says. The remote side answers 429 to the
  first request for \<open>a\<close> and accepts the second. The second request is the retry and
  it succeeds, yet \<open>a\<close> is reported as failed, with the message of the first
  failure, and the callback is not called. When the second request fails for another
  reason (here 404), the report carries the message of the first failure, not of the
  retry.
\<close>

theorem retry_outcome_misreported:
  "deleteDeployments example_config scripted ''w'' [''a''] (Some show_progress)
      \<lparr>world = [Inr (rate_limited_response None)], trace = []\<rparr> =
     (\<lparr>success = [], failed = [(''a'', rate_limit_message)]\<rparr>,
      \<lparr>world = [],
       trace = [Attempt ''a'' (Some (RateLimitError None)), Attempt ''a'' None]\<rparr>) \<and>
   deleteDeployments example_config scripted ''w'' [''a''] (Some show_progress)
      \<lparr>world = [Inr (rate_limited_response None), Inr not_found_response], trace = []\<rparr> =
     (\<lparr>success = [], failed = [(''a'', rate_limit_message)]\<rparr>,
      \<lparr>world = [],
       trace = [Attempt ''a'' (Some (RateLimitError None)),
                Attempt ''a'' (Some (CloudflareAPIError not_found_message (Some 404) None))]\<rparr>)"
  by (simp add: run_simps)

text \<open>
  On the same input the later variant of the retry block waits 60 s, makes the one
  retry and records its success.
\<close>

lemma later_variant_retries_once:
  "delete_with_retry_later example_config scripted ''w'' ''a''
      \<lparr>world = [Inr (rate_limited_response None)], trace = []\<rparr> =
   (TrySuccessL,
    \<lparr>world = [],
     trace = [Attempt ''a'' (Some (RateLimitError None)), Delay 60000,
              Attempt ''a'' None]\<rparr>)"
  by (simp add: delete_with_retry_later_def tryDelete_later_def run_simps)

section \<open>Selection and dispatch\<close>

lemma listDeployments_trace:
  assumes "listDeployments config fetch sn s = (r, s1)"
  shows "trace s1 = trace s"
proof -
  obtain q s0 where req: "request config fetch
      (''/accounts/'' @ accountId config @ ''/workers/scripts/'' @ sn @ ''/deployments'')
      ''GET'' s = (q, s0)"
    by (metis surj_pair)
  have "trace s0 = trace s"
    using request_trace [of config fetch _ "''GET''" s] req by (metis snd_conv)
  with assms req show ?thesis
    unfolding listDeployments_def by (auto split: sum.splits)
qed

lemma run_sets:
  fixes fetch :: "('w, 'r) fetch" and s :: "'w st"
  shows "\<exists>new. trace (snd (deleteDeployments config fetch sn ids cb s)) = trace s @ new \<and>
     set (attempted new) = set ids \<and>
     set (success (fst (deleteDeployments config fetch sn ids cb s))) \<union>
       fst ` set (failed (fst (deleteDeployments config fetch sn ids cb s))) = set ids"
proof -
  let ?run = "deleteDeployments config fetch sn ids cb s"
  obtain flags where fl: "length flags = length ids"
    "success (fst ?run) = map fst (filter snd (zip ids flags))"
    "map fst (failed (fst ?run)) = map fst (filter (\<lambda>p. \<not> snd p) (zip ids flags))"
    using loop_partition [of ids 0 config fetch sn cb "(\<lparr>success = [], failed = []\<rparr>, s)"]
    by (auto simp: deleteDeployments_def)
  obtain new where new: "trace (snd ?run) = trace s @ new" "set (attempted new) = set ids"
    using loop_pacing [of config fetch sn ids cb 0 "(\<lparr>success = [], failed = []\<rparr>, s)"]
    by (auto simp: deleteDeployments_def)
  have "mset (success (fst ?run)) + mset (map fst (failed (fst ?run))) = mset ids"
    using mset_split [of fst snd "zip ids flags"] fl by simp
  then have "set_mset (mset (success (fst ?run)) + mset (map fst (failed (fst ?run)))) =
      set_mset (mset ids)"
    by simp
  then have "set (success (fst ?run)) \<union> fst ` set (failed (fst ?run)) = set ids"
    by simp
  with new show ?thesis by blast
qed

lemma enabled_choices:
  "choice_value ` {c \<in> set (map (\<lambda>(index, d). \<lparr>choice_value = d, disabled = (index = 0)\<rparr>)
        (enumerate 0 ds)). \<not> disabled c} \<subseteq> set (drop 1 ds)"
proof (cases ds)
  case Nil
  then show ?thesis by simp
next
  case (Cons d rest)
  have "i \<noteq> 0" if "(i, x) \<in> set (enumerate 1 rest)" for i x
    using that by (auto simp: in_set_enumerate_eq)
  then show ?thesis
    unfolding Cons by (auto simp: in_set_enumerate_eq image_iff)
qed

lemma selected_enabled:
  assumes "\<forall>cs. set (checkbox cs) \<subseteq> choice_value ` {c \<in> set cs. \<not> disabled c}"
  shows "set (selectDeploymentsToDelete checkbox ds) \<subseteq> set (drop 1 ds)"
proof (cases "length ds = 0")
  case True
  then show ?thesis by (simp add: selectDeploymentsToDelete_def)
next
  case False
  let ?cs = "map (\<lambda>(index, d). \<lparr>choice_value = d, disabled = (index = 0)\<rparr>) (enumerate 0 ds)"
  have "set (checkbox ?cs) \<subseteq> choice_value ` {c \<in> set ?cs. \<not> disabled c}"
    using assms by blast
  also have "\<dots> \<subseteq> set (drop 1 ds)"
    by (rule enabled_choices)
  finally show ?thesis
    using False by (simp add: selectDeploymentsToDelete_def)
qed

text \<open>What the command hands to the engine, when it gets that far.\<close>

lemma deleteCommand_cases:
  fixes fetch :: "('w, DeploymentsResult) fetch" and s :: "'w st"
  assumes listing: "listDeployments config fetch sn s = (Inr ds, s1)"
    and run: "deleteCommand config fetch checkbox confirm sn options s = (out, s')"
  obtains (quiet) "s' = s1" "\<forall>r. out \<noteq> Deleted r" "\<forall>td. out \<noteq> DryRun td"
  | (dry) "s' = s1" "dryRun options"
      "out = DryRun (if all_opt options then drop 1 ds
                     else selectDeploymentsToDelete checkbox ds)"
  | (dispatched) "\<not> dryRun options"
      "(out, s') = (case deleteDeployments config fetch sn
           (map deployment_id (if all_opt options then drop 1 ds
                               else selectDeploymentsToDelete checkbox ds))
           (Some show_progress) s1 of (result, s2) \<Rightarrow> (Deleted result, s2))"
proof -
  let ?td = "if all_opt options then drop 1 ds else selectDeploymentsToDelete checkbox ds"
  let ?confirmed = "if all_opt options
                    then confirmDeleteAll confirm (length ?td) (force options)
                    else confirmDeletion confirm (length ?td) (force options)"
  consider "length ds = 0 \<or> length ds = 1 \<or> length ?td = 0 \<or> (\<not> dryRun options \<and> \<not> ?confirmed)"
    | "length ds \<noteq> 0" "length ds \<noteq> 1" "length ?td \<noteq> 0" "dryRun options"
    | "length ds \<noteq> 0" "length ds \<noteq> 1" "length ?td \<noteq> 0" "\<not> dryRun options" "?confirmed"
    by blast
  then show thesis
  proof cases
    case 1
    then have "s' = s1" "\<forall>r. out \<noteq> Deleted r" "\<forall>td. out \<noteq> DryRun td"
      using run listing unfolding deleteCommand_def Let_def
      by (auto split: if_splits)
    then show thesis by (rule quiet)
  next
    case 2
    then have "s' = s1" "out = DryRun ?td"
      using run listing unfolding deleteCommand_def Let_def
      by (auto split: if_splits)
    with 2 show thesis using dry by blast
  next
    case 3
    then have "(out, s') = (case deleteDeployments config fetch sn (map deployment_id ?td)
           (Some show_progress) s1 of (result, s2) \<Rightarrow> (Deleted result, s2))"
      using run listing unfolding deleteCommand_def Let_def
      by (auto split: if_splits)
    with 3 show thesis using dispatched by blast
  qed
qed

lemmas command_simps =
  deleteCommand_def listDeployments_def selectDeploymentsToDelete_def confirmDeletion_def
  confirmDeleteAll_def listing_remote_def example_deployment_def pick_enabled_def
  request_def handle_response_def deleteDeployments_def loop_step
  loop_done record_result_def delete_with_retry_def tryDelete_def deleteDeployment_def
  delay_def invoke_def requestDelay_def example_config_def show_progress_def
  confirm_yes_def Let_def

lemma example_listing:
  "listDeployments example_config (listing_remote ds) ''w'' \<lparr>world = (), trace = []\<rparr> =
     (Inr ds, \<lparr>world = (), trace = []\<rparr>)"
  by (simp add: listDeployments_def request_def handle_response_def listing_remote_def)

lemma example_command:
  "deleteCommand example_config
      (listing_remote [example_deployment ''active'', example_deployment ''old''])
      pick_enabled confirm_yes ''w'' \<lparr>dryRun = False, force = False, all_opt = False\<rparr>
      \<lparr>world = (), trace = []\<rparr> =
   (Deleted \<lparr>success = [''old''], failed = []\<rparr>,
    \<lparr>world = (), trace = [Attempt ''old'' None, Progress 1 1 ''old'']\<rparr>)"
  by (simp add: command_simps)

text \<open>
  C1, as the claim states it, fails: the engine does not refuse the identifier at
  position 0. It knows identifiers only, not the list they come from; given the
  identifier of the active deployment it requests its deletion and reports it deleted.
\<close>

theorem engine_accepts_active_counterexample:
  "deleteDeployments example_config always_ok ''w''
      [deployment_id ([example_deployment ''active'', example_deployment ''old''] ! 0)] None
      \<lparr>world = (), trace = []\<rparr> =
   (\<lparr>success = [''active''], failed = []\<rparr>,
    \<lparr>world = (), trace = [Attempt ''active'' None]\<rparr>)"
  by (simp add: run_simps always_ok_def example_deployment_def)

text \<open>
  C1, amended. The exclusion is the command's, not the engine's. For a listing without
  repeated identifiers and a picker that returns enabled choices only, the command never
  requests the deletion of the identifier at position 0, in either mode: it is not among
  the deployments shown by a dry run, not requested from the remote side, and in
  neither list of the report. The engine itself deletes whatever identifiers it is given.
\<close>

theorem active_not_dispatched:
  fixes fetch :: "('w, DeploymentsResult) fetch" and s :: "'w st"
  assumes listing: "listDeployments config fetch sn s = (Inr ds, s1)"
    and nonempty: "ds \<noteq> []"
    and ids: "distinct (map deployment_id ds)"
    and picker: "\<forall>cs. set (checkbox cs) \<subseteq> choice_value ` {c \<in> set cs. \<not> disabled c}"
    and run: "deleteCommand config fetch checkbox confirm sn options s = (out, s')"
  shows "\<exists>new. trace s' = trace s @ new \<and>
     deployment_id (hd ds) \<notin> set (attempted new) \<and>
     (\<forall>td. out = DryRun td \<longrightarrow> deployment_id (hd ds) \<notin> deployment_id ` set td) \<and>
     (\<forall>r. out = Deleted r \<longrightarrow>
        deployment_id (hd ds) \<notin> set (success r) \<union> fst ` set (failed r))"
proof -
  define td where
    "td = (if all_opt options then drop 1 ds else selectDeploymentsToDelete checkbox ds)"
  have "set td \<subseteq> set (drop 1 ds)"
    using selected_enabled [OF picker, of ds] by (simp add: td_def)
  moreover have "deployment_id (hd ds) \<notin> deployment_id ` set (drop 1 ds)"
    using nonempty ids by (cases ds) auto
  ultimately have safe: "deployment_id (hd ds) \<notin> set (map deployment_id td)"
    by auto
  note tr1 = listDeployments_trace [OF listing]
  from listing run show ?thesis
  proof (cases rule: deleteCommand_cases)
    case quiet
    with tr1 show ?thesis by simp
  next
    case dry
    with tr1 safe show ?thesis by (simp add: td_def)
  next
    case dispatched
    define run where "run = deleteDeployments config fetch sn (map deployment_id td)
        (Some show_progress) s1"
    from dispatched(2) have out: "out = Deleted (fst run)" and s': "s' = snd run"
      unfolding run_def td_def by (auto split: prod.splits)
    obtain new where new: "trace (snd run) = trace s1 @ new"
      "set (attempted new) = set (map deployment_id td)"
      "set (success (fst run)) \<union> fst ` set (failed (fst run)) = set (map deployment_id td)"
      unfolding run_def
      using run_sets [of config fetch sn "map deployment_id td" _ s1] by blast
    have "trace s' = trace s @ new" using new(1) tr1 s' by simp
    moreover have "deployment_id (hd ds) \<notin> set (attempted new)"
      using new(2) safe by simp
    moreover have "deployment_id (hd ds) \<notin> set (success (fst run)) \<union> fst ` set (failed (fst run))"
      using new(3) safe by simp
    ultimately show ?thesis
      unfolding out by (intro exI [of _ new]) simp
  qed
qed

theorem active_not_dispatched_witness:
  "[example_deployment ''active'', example_deployment ''old''] \<noteq> [] \<and>
   distinct (map deployment_id [example_deployment ''active'', example_deployment ''old'']) \<and>
   (\<forall>cs. set (pick_enabled cs) \<subseteq> choice_value ` {c \<in> set cs. \<not> disabled c}) \<and>
   ''active'' \<notin> set (attempted [Attempt ''old'' None, Progress 1 1 ''old'']) \<and>
   ''active'' \<notin> set (success \<lparr>success = [''old''], failed = []\<rparr>) \<union>
      fst ` set (failed \<lparr>success = [''old''], failed = []\<rparr>)"
proof -
  let ?ds = "[example_deployment ''active'', example_deployment ''old'']"
  have ne: "?ds \<noteq> []" by simp
  have ids: "distinct (map deployment_id ?ds)"
    by (simp add: example_deployment_def)
  have picker: "\<forall>cs. set (pick_enabled cs) \<subseteq> choice_value ` {c \<in> set cs. \<not> disabled c}"
    by (auto simp: pick_enabled_def)
  have hd: "deployment_id (hd ?ds) = ''active''"
    by (simp add: example_deployment_def)
  from active_not_dispatched [OF example_listing ne ids picker example_command]
  have "''active'' \<notin> set (attempted [Attempt ''old'' None, Progress 1 1 ''old'']) \<and>
   ''active'' \<notin> set (success \<lparr>success = [''old''], failed = []\<rparr>) \<union>
      fst ` set (failed \<lparr>success = [''old''], failed = []\<rparr>)"
    unfolding hd by auto
  with ne ids picker show ?thesis by blast
qed

lemma example_command_two:
  "deleteCommand example_config
      (listing_remote [example_deployment ''active'', example_deployment ''old1'',
                       example_deployment ''old2''])
      pick_enabled confirm_yes ''w'' \<lparr>dryRun = False, force = False, all_opt = False\<rparr>
      \<lparr>world = (), trace = []\<rparr> =
   (Deleted \<lparr>success = [''old1'', ''old2''], failed = []\<rparr>,
    \<lparr>world = (),
     trace = [Attempt ''old1'' None, Progress 1 2 ''old1'', Delay 200,
              Attempt ''old2'' None, Progress 2 2 ''old2'']\<rparr>)"
  by (simp add: command_simps)

text \<open>The requests of the handling of one identifier are for that identifier.\<close>

lemma handling_requests:
  assumes "delete_with_retry config fetch sn x s = (r, s1)"
  obtains c core where "trace s1 = trace s @ core" "attempted core = replicate c x" "0 < c"
  using assms
proof (cases rule: delete_with_retry_cases)
  case first_ok
  with that [of "[Attempt x None]" 1] show thesis by simp
next
  case (first_fail e)
  with that [of "[Attempt x (Some e)]" 1] show thesis by simp
next
  case (second ra out)
  with that [of "[Attempt x (Some (RateLimitError ra)), Attempt x out]" 2]
  show thesis by (simp add: numeral_2_eq_2)
next
  case (third ra ra' out)
  with that [of "[Attempt x (Some (RateLimitError ra)),
      Attempt x (Some (RateLimitError ra')), Delay (waitTime ra'), Attempt x out]" 3]
  show thesis by (simp add: numeral_3_eq_3)
qed

text \<open>
  The requests of a run: for each position of the input in turn, one request or more
  for the identifier at that position.
\<close>

lemma loop_requests:
  fixes fetch :: "('w, 'r) fetch" and acc :: "DeleteResult \<times> 'w st"
  shows "\<exists>counts new. length counts = length ids - i \<and> (\<forall>c \<in> set counts. 0 < c) \<and>
     trace (snd (deleteDeployments_loop config fetch sn ids cb i acc)) = trace (snd acc) @ new \<and>
     attempted new = concat (map (\<lambda>(c, x). replicate c x) (zip counts (drop i ids)))"
proof (rule loop_induct_rule [where P = "\<lambda>i acc fin.
     \<exists>counts new. length counts = length ids - i \<and> (\<forall>c \<in> set counts. 0 < c) \<and>
     trace (snd fin) = trace (snd acc) @ new \<and>
     attempted new = concat (map (\<lambda>(c, x). replicate c x) (zip counts (drop i ids)))"],
    goal_cases)
  case (1 i acc)
  show ?case
    by (rule exI [of _ "[]"], rule exI [of _ "[]"]) (use 1 in simp)
next
  case (2 i res s r s1 res' s2 fin)
  then obtain counts new where ih: "length counts = length ids - Suc i"
    "\<forall>c \<in> set counts. 0 < c" "trace (snd fin) = trace s2 @ new"
    "attempted new = concat (map (\<lambda>(c, x). replicate c x) (zip counts (drop (Suc i) ids)))"
    unfolding fst_conv snd_conv by blast
  from 2(2) obtain c core where core: "trace s1 = trace s @ core"
    "attempted core = replicate c (ids ! i)" "0 < c"
    by (rule handling_requests)
  let ?mid = "(if r = TrySuccess then announce cb i (length ids) (ids ! i) else [])
                @ pace i (length ids)"
  have att_mid: "attempted ?mid = []"
    by (simp add: announce_def pace_def split: option.splits)
  note dr = drop_nth_Suc [OF 2(1)]
  have len: "length (c # counts) = length ids - i"
    using ih(1) 2(1) by simp
  have pos: "\<forall>c' \<in> set (c # counts). 0 < c'"
    using ih(2) core(3) by simp
  have tr: "trace (snd fin) = trace (snd (res, s)) @ (core @ ?mid @ new)"
    using ih(3) record_result_trace [OF 2(3)] core(1) by simp
  have att: "attempted (core @ ?mid @ new) =
      concat (map (\<lambda>(c, x). replicate c x) (zip (c # counts) (drop i ids)))"
    using core(2) att_mid ih(4) dr by (simp del: append_assoc)
  show ?case
    by (rule exI [of _ "c # counts"], rule exI [of _ "core @ ?mid @ new"])
       (use len pos tr att in blast)
qed

lemma choices_values:
  "map choice_value (map (\<lambda>(index, d). \<lparr>choice_value = d, disabled = (index = 0)\<rparr>)
     (enumerate n ds)) = ds"
  by (induction ds arbitrary: n) simp_all

text \<open>A picker that returns checked choices, each once, selects listed deployments.\<close>

lemma selected_subseq:
  assumes "\<forall>cs. subseq (checkbox cs) (map choice_value cs)"
  shows "subseq (selectDeploymentsToDelete checkbox ds) ds"
proof (cases "length ds = 0")
  case True
  then show ?thesis by (simp add: selectDeploymentsToDelete_def)
next
  case False
  let ?cs = "map (\<lambda>(index, d). \<lparr>choice_value = d, disabled = (index = 0)\<rparr>) (enumerate 0 ds)"
  have "subseq (checkbox ?cs) (map choice_value ?cs)"
    using assms by blast
  then show ?thesis
    using False unfolding choices_values by (simp add: selectDeploymentsToDelete_def)
qed

text \<open>
  C9, as the claim states it, fails: nothing removes duplicates between the selection
  and the requests. When the listing names a deployment twice and the user checks both
  entries, the identifier is handed to the engine twice, requested twice and reported
  twice; and so it is when the engine is called with a list that repeats an identifier.
\<close>

theorem duplicates_dispatched_counterexample:
  "deleteCommand example_config
      (listing_remote [example_deployment ''active'', example_deployment ''old'',
                       example_deployment ''old''])
      pick_enabled confirm_yes ''w''
      \<lparr>dryRun = False, force = True, all_opt = False\<rparr> \<lparr>world = (), trace = []\<rparr> =
   (Deleted \<lparr>success = [''old'', ''old''], failed = []\<rparr>,
    \<lparr>world = (),
     trace = [Attempt ''old'' None, Progress 1 2 ''old'', Delay 200,
              Attempt ''old'' None, Progress 2 2 ''old'']\<rparr>) \<and>
   deleteDeployments example_config always_ok ''w'' [''old'', ''old''] None
      \<lparr>world = (), trace = []\<rparr> =
   (\<lparr>success = [''old'', ''old''], failed = []\<rparr>,
    \<lparr>world = (), trace = [Attempt ''old'' None, Delay 200, Attempt ''old'' None]\<rparr>)"
  by (simp add: command_simps always_ok_def ok_response_def)

text \<open>
  C9, amended. In interactive mode the engine is given the identifiers of the
  deployments the picker returned, in the picker's order and with their repetitions:
  the requests of the run are, for each selected deployment in turn, one request or
  more for its identifier, and the report names each identifier as many times as it
  was selected. No identifier is requested or reported for two selected entries when
  the listing repeats no identifier and the picker returns checked choices each once,
  as the checkbox does (its result is a sub-sequence of the values offered).
\<close>

theorem interactive_dispatch:
  fixes fetch :: "('w, DeploymentsResult) fetch" and s :: "'w st"
  assumes listing: "listDeployments config fetch sn s = (Inr ds, s1)"
    and mode: "\<not> all_opt options"
    and run: "deleteCommand config fetch checkbox confirm sn options s = (Deleted r, s')"
  shows "(r, s') = deleteDeployments config fetch sn
            (map deployment_id (selectDeploymentsToDelete checkbox ds))
            (Some show_progress) s1 \<and>
         (\<exists>counts new.
            length counts = length (selectDeploymentsToDelete checkbox ds) \<and>
            (\<forall>c \<in> set counts. 0 < c) \<and>
            trace s' = trace s @ new \<and>
            attempted new =
              concat (map (\<lambda>(c, x). replicate c x)
                (zip counts (map deployment_id (selectDeploymentsToDelete checkbox ds))))) \<and>
         mset (success r) + mset (map fst (failed r)) =
           mset (map deployment_id (selectDeploymentsToDelete checkbox ds)) \<and>
         (distinct (map deployment_id ds) \<and>
          (\<forall>cs. subseq (checkbox cs) (map choice_value cs)) \<longrightarrow>
            distinct (map deployment_id (selectDeploymentsToDelete checkbox ds)) \<and>
            distinct (success r @ map fst (failed r)))"
proof -
  let ?ids = "map deployment_id (selectDeploymentsToDelete checkbox ds)"
  let ?run = "deleteDeployments config fetch sn ?ids (Some show_progress) s1"
  have eq: "(r, s') = ?run"
    using listing run
  proof (cases rule: deleteCommand_cases)
    case dispatched
    with mode show ?thesis by (auto split: prod.splits)
  qed auto
  then have r: "r = fst ?run" and s': "s' = snd ?run"
    by (metis fst_conv, metis snd_conv)
  note tr1 = listDeployments_trace [OF listing]
  obtain counts new where c: "length counts = length ?ids" "\<forall>c \<in> set counts. 0 < c"
    "trace (snd ?run) = trace s1 @ new"
    "attempted new = concat (map (\<lambda>(c, x). replicate c x) (zip counts ?ids))"
    using loop_requests [of ?ids 0 config fetch sn "Some show_progress"
        "(\<lparr>success = [], failed = []\<rparr>, s1)"]
    unfolding deleteDeployments_def by auto
  have reqs: "\<exists>counts new.
      length counts = length (selectDeploymentsToDelete checkbox ds) \<and>
      (\<forall>c \<in> set counts. 0 < c) \<and> trace s' = trace s @ new \<and>
      attempted new = concat (map (\<lambda>(c, x). replicate c x) (zip counts ?ids))"
    by (rule exI [of _ counts], rule exI [of _ new]) (use c tr1 s' in simp)
  obtain rs where rs: "length rs = length ?ids"
    "success (fst ?run) = succeeded_of ?ids rs" "failed (fst ?run) = failed_of ?ids rs"
    using run_outcomes [of ?ids s1 config fetch sn "Some show_progress"] by blast
  have m: "mset (success r) + mset (map fst (failed r)) = mset ?ids"
    unfolding r rs(2,3) by (rule filed_mset [OF rs(1)])
  have d: "distinct ?ids \<and> distinct (success r @ map fst (failed r))"
    if ids: "distinct (map deployment_id ds)"
      and picker: "\<forall>cs. subseq (checkbox cs) (map choice_value cs)"
  proof -
    have "subseq ?ids (map deployment_id ds)"
      using selected_subseq [OF picker, of ds] by (rule subseq_map)
    then have 1: "distinct ?ids"
      using ids by (rule distinct_subseq)
    have "mset (success r @ map fst (failed r)) = mset ?ids"
      using m by simp
    from distinct_of_mset [OF this 1] 1 show ?thesis by blast
  qed
  from eq reqs m d show ?thesis by blast
qed

theorem interactive_dispatch_witness:
  "\<not> all_opt \<lparr>dryRun = False, force = False, all_opt = False\<rparr> \<and>
   distinct (map deployment_id [example_deployment ''active'', example_deployment ''old1'',
                                example_deployment ''old2'']) \<and>
   (\<forall>cs. subseq (pick_enabled cs) (map choice_value cs)) \<and>
   (\<lparr>success = [''old1'', ''old2''], failed = []\<rparr>,
    \<lparr>world = (),
     trace = [Attempt ''old1'' None, Progress 1 2 ''old1'', Delay 200,
              Attempt ''old2'' None, Progress 2 2 ''old2'']\<rparr>) =
     deleteDeployments example_config
       (listing_remote [example_deployment ''active'', example_deployment ''old1'',
                        example_deployment ''old2''])
       ''w'' [''old1'', ''old2''] (Some show_progress) \<lparr>world = (), trace = []\<rparr> \<and>
   (\<exists>counts.
      length counts = 2 \<and>
      [''old1'', ''old2''] =
        concat (map (\<lambda>(c, x). replicate c x) (zip counts [''old1'', ''old2'']))) \<and>
   distinct [''old1'', ''old2''] \<and>
   distinct (success \<lparr>success = [''old1'', ''old2''], failed = []\<rparr> @
             map fst (failed \<lparr>success = [''old1'', ''old2''], failed = []\<rparr>))"
proof -
  let ?ds = "[example_deployment ''active'', example_deployment ''old1'',
              example_deployment ''old2'']"
  let ?s = "\<lparr>world = (), trace = []\<rparr> :: unit st"
  have mode: "\<not> all_opt \<lparr>dryRun = False, force = False, all_opt = False\<rparr>" by simp
  have ids: "distinct (map deployment_id ?ds)"
    by (simp add: example_deployment_def)
  have picker: "\<forall>cs. subseq (pick_enabled cs) (map choice_value cs)"
    by (simp add: pick_enabled_def subseq_map)
  have sel: "selectDeploymentsToDelete pick_enabled ?ds =
      [example_deployment ''old1'', example_deployment ''old2'']"
    by (simp add: selectDeploymentsToDelete_def pick_enabled_def)
  have sel_ids: "map deployment_id [example_deployment ''old1'', example_deployment ''old2''] =
      [''old1'', ''old2'']"
    by (simp add: example_deployment_def)
  note inst = interactive_dispatch [OF example_listing mode example_command_two,
      unfolded sel sel_ids]
  from inst have 1: "(\<lparr>success = [''old1'', ''old2''], failed = []\<rparr>,
    \<lparr>world = (),
     trace = [Attempt ''old1'' None, Progress 1 2 ''old1'', Delay 200,
              Attempt ''old2'' None, Progress 2 2 ''old2'']\<rparr>) =
     deleteDeployments example_config (listing_remote ?ds)
       ''w'' [''old1'', ''old2''] (Some show_progress) ?s"
    by blast
  from inst obtain counts new where c: "length counts = length [example_deployment ''old1'',
        example_deployment ''old2'']"
    "trace \<lparr>world = (),
       trace = [Attempt ''old1'' None, Progress 1 2 ''old1'', Delay 200,
                Attempt ''old2'' None, Progress 2 2 ''old2'']\<rparr> = trace ?s @ new"
    "attempted new =
       concat (map (\<lambda>(c, x). replicate c x) (zip counts [''old1'', ''old2'']))"
    by blast
  from c(2) have "new = [Attempt ''old1'' None, Progress 1 2 ''old1'', Delay 200,
      Attempt ''old2'' None, Progress 2 2 ''old2'']"
    by simp
  then have "attempted new = [''old1'', ''old2'']" by simp
  with c(1,3) have 2: "\<exists>counts. length counts = 2 \<and>
      [''old1'', ''old2''] =
        concat (map (\<lambda>(c, x). replicate c x) (zip counts [''old1'', ''old2'']))"
    by (intro exI [of _ counts]) simp
  from inst ids picker have 3: "distinct [''old1'', ''old2''] \<and>
      distinct (success \<lparr>success = [''old1'', ''old2''], failed = []\<rparr> @
                map fst (failed \<lparr>success = [''old1'', ''old2''], failed = []\<rparr>))"
    by blast
  from mode ids picker 1 2 3 show ?thesis by blast
qed

section \<open>Facts about the sanitizer\<close>


lemma canonicalize_B: "canonicalize c = CHR ''B'' \<longleftrightarrow> c = CHR ''B'' \<or> c = CHR ''b''"
  by (auto simp: canonicalize_def split: if_splits)

lemma space_not_B: "is_space c \<Longrightarrow> canonicalize c \<noteq> CHR ''B''"
  by (auto simp: is_space_def canonicalize_def)

lemma match_bearer_head:
  "match_bearer s = Some r \<Longrightarrow> s \<noteq> [] \<and> canonicalize (hd s) = CHR ''B''"
  by (cases s) (auto simp: match_bearer_def canonicalize_def split: option.splits if_splits)

lemma match_bearer_rest:
  assumes "match_bearer s = Some r"
  shows "r = [] \<or> is_space (hd r)"
proof -
  from assms obtain t where
    r: "r = dropWhile (\<lambda>c. \<not> is_space c) (dropWhile is_space t)"
    by (auto simp: match_bearer_def split: option.splits if_splits)
  show ?thesis
    unfolding r using hd_dropWhile [of "\<lambda>c. \<not> is_space c"] by blast
qed

lemma match_bearer_marker:
  assumes "r = [] \<or> is_space (hd r)"
  shows "match_bearer (''Bearer [REDACTED]'' @ r) = Some r"
proof -
  have "dropWhile (\<lambda>c. \<not> is_space c) r = r"
    using assms by (cases r) auto
  then show ?thesis
    by (simp add: match_bearer_def canonicalize_def is_space_def)
qed

lemma sanitize_marker:
  assumes "r = [] \<or> is_space (hd r)"
  shows "sanitize (''Bearer [REDACTED]'' @ r) = ''Bearer [REDACTED]'' @ sanitize r"
  using match_bearer_marker [OF assms] by simp

lemma sanitize_Nil_iff: "sanitize s = [] \<longleftrightarrow> s = []"
  by (cases s) (auto split: option.splits)

lemma sanitize_hd_space:
  assumes "s \<noteq> []"
  shows "is_space (hd (sanitize s)) \<longleftrightarrow> is_space (hd s)"
proof (cases "match_bearer s")
  case None
  with assms show ?thesis by (cases s) auto
next
  case (Some r)
  then have "canonicalize (hd s) = CHR ''B''" by (simp add: match_bearer_head)
  then have "\<not> is_space (hd s)" using space_not_B by blast
  moreover have "\<not> is_space (hd (sanitize s))"
    using Some assms by (cases s) (auto simp: is_space_def)
  ultimately show ?thesis by simp
qed

lemma sanitize_rest_shape:
  assumes "r = [] \<or> is_space (hd r)"
  shows "sanitize r = [] \<or> is_space (hd (sanitize r))"
  using assms sanitize_hd_space [of r] by (auto simp: sanitize_Nil_iff)

text \<open>A character of the output that is no \<open>B\<close> was copied from the input.\<close>

lemma sanitize_copied:
  assumes "sanitize s = x # u" and "canonicalize x \<noteq> CHR ''B''"
  shows "\<exists>s'. s = x # s' \<and> u = sanitize s'"
proof (cases s)
  case Nil
  with assms show ?thesis by simp
next
  case (Cons y s')
  show ?thesis
  proof (cases "match_bearer s")
    case None
    with assms Cons show ?thesis by simp
  next
    case (Some r)
    with assms Cons have "x = CHR ''B''" by simp
    with assms(2) show ?thesis by (simp add: canonicalize_def)
  qed
qed

lemma match_literal_sanitize:
  assumes "match_literal ps (sanitize s) = Some t'"
    and "\<forall>p \<in> set ps. canonicalize p \<noteq> CHR ''B''"
    and "\<forall>p \<in> set ps. canonicalize (canonicalize p) = canonicalize p"
  shows "\<exists>t. match_literal ps s = Some t \<and> t' = sanitize t"
  using assms
proof (induction ps arbitrary: s)
  case Nil
  then show ?case by simp
next
  case (Cons p ps)
  from Cons.prems(1) obtain x u where xu: "sanitize s = x # u"
    by (cases "sanitize s") auto
  with Cons.prems(1) have x: "canonicalize x = canonicalize p"
    and rest: "match_literal ps u = Some t'"
    by (auto split: if_splits)
  have "canonicalize x \<noteq> CHR ''B''"
    using x Cons.prems(2) by simp
  from sanitize_copied [OF xu this] obtain s' where s': "s = x # s'" "u = sanitize s'"
    by blast
  from Cons.IH [of s'] rest s'(2) Cons.prems(2,3)
  obtain t where "match_literal ps s' = Some t" "t' = sanitize t" by auto
  with s'(1) x show ?case by simp
qed

lemma all_space_sanitize: "\<forall>c \<in> set s. is_space c \<Longrightarrow> sanitize s = s"
proof (induction s)
  case Nil
  then show ?case by simp
next
  case (Cons c cs)
  have "match_bearer (c # cs) = None"
  proof (cases "match_bearer (c # cs)")
    case (Some r)
    from match_bearer_head [OF this] space_not_B [of c] Cons.prems
    show ?thesis by simp
  qed simp
  with Cons show ?case by simp
qed

lemma starts_token_iff:
  "starts_token t \<longleftrightarrow> t \<noteq> [] \<and> is_space (hd t) \<and> (\<exists>c \<in> set t. \<not> is_space c)"
  by (cases t) (auto simp: starts_token_def dropWhile_eq_Nil_conv)

lemma starts_token_sanitize:
  assumes "starts_token (sanitize t)"
  shows "starts_token t"
proof -
  from assms have ne: "sanitize t \<noteq> []" and sp: "is_space (hd (sanitize t))"
    and tok: "\<exists>c \<in> set (sanitize t). \<not> is_space c"
    by (auto simp: starts_token_iff)
  from ne have t: "t \<noteq> []" by (simp add: sanitize_Nil_iff)
  moreover from sp t have "is_space (hd t)" by (simp add: sanitize_hd_space)
  moreover have "\<exists>c \<in> set t. \<not> is_space c"
    using tok all_space_sanitize [of t] by metis
  ultimately show ?thesis by (simp add: starts_token_iff)
qed

lemma match_bearer_iff:
  "match_bearer s \<noteq> None \<longleftrightarrow> (\<exists>t. match_literal ''Bearer'' s = Some t \<and> starts_token t)"
  by (auto simp: match_bearer_def starts_token_def split: option.splits)

text \<open>Where the pattern did not match the input, it does not match the output.\<close>

lemma no_new_match:
  assumes "match_bearer (c # cs) = None"
  shows "match_bearer (c # sanitize cs) = None"
proof (rule ccontr)
  assume "match_bearer (c # sanitize cs) \<noteq> None"
  then have "\<exists>t. match_literal ''Bearer'' (c # sanitize cs) = Some t \<and> starts_token t"
    by (simp only: match_bearer_iff)
  then obtain t' where t': "match_literal ''Bearer'' (c # sanitize cs) = Some t'"
    and st: "starts_token t'"
    by blast
  from t' have c: "canonicalize c = canonicalize CHR ''B''"
    and m: "match_literal ''earer'' (sanitize cs) = Some t'"
    by (auto split: if_splits)
  have "\<exists>t. match_literal ''earer'' cs = Some t \<and> t' = sanitize t"
    by (rule match_literal_sanitize [OF m]) (simp_all add: canonicalize_def)
  then obtain t where t: "match_literal ''earer'' cs = Some t" "t' = sanitize t" by blast
  from st t(2) have "starts_token t" by (simp add: starts_token_sanitize)
  moreover have "match_literal ''Bearer'' (c # cs) = Some t"
    using c t(1) by simp
  ultimately have "match_bearer (c # cs) \<noteq> None"
    unfolding match_bearer_iff by blast
  with assms show False by simp
qed

lemma sanitize_idem: "sanitize (sanitize m) = sanitize m"
proof (induction m rule: sanitize.induct)
  case 1
  show ?case by simp
next
  case (2 c cs)
  show ?case
  proof (cases "match_bearer (c # cs)")
    case None
    with 2 no_new_match [OF None] show ?thesis by simp
  next
    case (Some rest)
    have shape: "sanitize rest = [] \<or> is_space (hd (sanitize rest))"
      by (rule sanitize_rest_shape [OF match_bearer_rest [OF Some]])
    have "sanitize (c # cs) = ''Bearer [REDACTED]'' @ sanitize rest"
      using Some by simp
    then have "sanitize (sanitize (c # cs)) = ''Bearer [REDACTED]'' @ sanitize (sanitize rest)"
      using sanitize_marker [OF shape] by simp
    with 2(2) [OF Some] Some show ?thesis by simp
  qed
qed




lemma redacted_suffix: "redacted (xs @ ys) \<Longrightarrow> redacted ys"
  by (induction xs) auto

lemma sanitize_redacted: "redacted m \<Longrightarrow> sanitize m = m"
proof (induction m rule: sanitize.induct)
  case 1
  show ?case by simp
next
  case (2 c cs)
  show ?case
  proof (cases "match_bearer (c # cs)")
    case None
    with 2 show ?thesis by simp
  next
    case (Some rest)
    with 2(3) have eq: "c # cs = ''Bearer [REDACTED]'' @ rest" by simp
    with 2(3) have "redacted rest" using redacted_suffix by metis
    with 2(2) [OF Some] have "sanitize rest = rest" by simp
    with Some eq show ?thesis by simp
  qed
qed





section \<open>Idempotence of the sanitizer\<close>

text \<open>
  C10. Sanitizing twice is sanitizing once; and a message in which every match of the
  pattern is already the marker is left as it is.
\<close>

theorem sanitize_idempotent:
  "sanitize (sanitize m) = sanitize m \<and> (redacted m \<longrightarrow> sanitize m = m)"
  by (simp add: sanitize_idem sanitize_redacted)

theorem sanitize_idempotent_witness:
  "redacted ''Authorization: Bearer [REDACTED] (echoed)'' \<and>
   sanitize ''Authorization: Bearer [REDACTED] (echoed)'' =
     ''Authorization: Bearer [REDACTED] (echoed)'' \<and>
   sanitize (sanitize ''Authorization: Bearer abc123 (echoed)'') =
     ''Authorization: Bearer [REDACTED] (echoed)''"
proof -
  have r: "redacted ''Authorization: Bearer [REDACTED] (echoed)''"
    by (simp add: match_bearer_def canonicalize_def is_space_def)
  have s: "sanitize ''Authorization: Bearer abc123 (echoed)'' =
      ''Authorization: Bearer [REDACTED] (echoed)''"
    by (simp add: match_bearer_def canonicalize_def is_space_def)
  from sanitize_idempotent [of "''Authorization: Bearer [REDACTED] (echoed)''"] r
  have 1: "sanitize ''Authorization: Bearer [REDACTED] (echoed)'' =
     ''Authorization: Bearer [REDACTED] (echoed)''"
    by blast
  from sanitize_idempotent [of "''Authorization: Bearer abc123 (echoed)''"]
  have 2: "sanitize (sanitize ''Authorization: Bearer abc123 (echoed)'') =
     ''Authorization: Bearer [REDACTED] (echoed)''"
    unfolding s by blast
  from r 1 2 show ?thesis by blast
qed

section \<open>Classification of responses\<close>
















section \<open>Redaction of surfaced messages\<close>








text \<open>
  When \<^verbatim>\<open>fetch\<close> itself rejects, the listing step rethrows the error as it is, while
  the deletion step reports its message through the sanitizer.
\<close>

lemma rejection_in_listing_and_deletion:
  "listDeployments example_config (rejecting (OtherError m)) ''w'' \<lparr>world = (), trace = []\<rparr> =
     (Inl (OtherError m), \<lparr>world = (), trace = []\<rparr>) \<and>
   fst (tryDelete example_config (rejecting (OtherError m)) ''w'' ''a''
          \<lparr>world = (), trace = []\<rparr>) = TryFailure (sanitize m) False"
  by (simp add: listDeployments_def tryDelete_def deleteDeployment_def request_def
      rejecting_def Let_def)







end
